theory Spec2Isabelle
  imports Main "HOL-Library.Word"
begin

section \<open>Liveness analysis (nc/core/ir/liveness/LivenessAnalyzer.cpp)\<close>

subsection \<open>The intermediate representation as the analyzer reads it\<close>

text \<open>
  Terms, statements, functions and the other artifacts are heap objects that the C++ code
  handles through pointers. A pointer is a machine word; the null pointer is \<open>0\<close>.
  The word type is finite, as the address space is, which is what makes the recursion of
  \<open>makeLive\<close> terminate.
\<close>

type_synonym ptr = "64 word"

text \<open>A memory location is a (domain, offset, size) triple.\<close>

type_synonym memory_location = "int \<times> int \<times> int"

text \<open>
  The access type of a term. The analyzer tests \<open>isRead()\<close> and \<open>isWrite()\<close>
  separately (\<open>if (isRead()) ... else if (isWrite()) ...\<close>), so a value that is
  neither is kept.
\<close>

datatype access_type = READ | WRITE | KILL

text \<open>
  One constructor for each \<open>Term::Kind\<close> that the analyzer switches on, carrying the
  members the analyzer reads from the corresponding subclass; \<open>UnsupportedTerm\<close>
  stands for every kind that reaches the \<open>default\<close> label of the switch.
\<close>

datatype term_node =
    IntConst
  | Intrinsic
  | Undefined
  | MemoryLocationAccess memory_location
  | Dereference ptr
  | UnaryOperator ptr
  | BinaryOperator ptr ptr
  | Choice ptr ptr
  | UnsupportedTerm nat

record ir_term =
  node :: term_node
  accessType :: access_type
  source :: ptr

definition isRead :: "ir_term \<Rightarrow> bool" where
  "isRead t = (accessType t = READ)"

definition isWrite :: "ir_term \<Rightarrow> bool" where
  "isWrite t = (accessType t = WRITE)"

datatype jumpTarget = JumpTarget (address: ptr)

text \<open>
  Statements, again one constructor for each \<open>Statement::Kind\<close> of the switch and
  \<open>UnsupportedStatement\<close> for its \<open>default\<close> label.
\<close>

datatype statement =
    Comment
  | InlineAssembly
  | Assignment
  | Kill
  | Jump (condition: ptr) (thenTarget: jumpTarget) (elseTarget: jumpTarget)
  | Call (target: ptr)
  | Return
  | UnsupportedStatement nat

text \<open>
  Basic blocks, with their optional address and their terminating jump (null when the
  block does not end with one), and the region graph: basic nodes and regions, of which
  some are switches.
\<close>

type_synonym ByteAddr = "64 word"

record basicBlock =
  blockAddress :: "ByteAddr option"
  getJump :: ptr

record basicNode =
  basicBlock :: basicBlock

datatype region =
    Switch (boundsCheckNode: "basicNode option")
  | OtherRegion nat

datatype cflow_node =
    BasicNode basicNode
  | Region region

text \<open>Reaching definitions of a term: a list of chunks, each with its defining terms.\<close>

record chunk =
  location :: memory_location
  definitions :: "ptr list"

type_synonym calleeId = nat

record signature =
  arguments :: "memory_location list"
  returnValue :: "memory_location option"

type_synonym callHook = "memory_location \<Rightarrow> ptr"
type_synonym returnHook = "memory_location \<Rightarrow> ptr"

text \<open>
  Everything a \<open>LivenessAnalyzer\<close> is constructed over, except the \<open>Liveness\<close> it
  fills: the function with its census, the dataflow, the architecture, the region graph,
  the hooks and the signatures. \<open>terms\<close> and \<open>statements\<close> are the heap: what a
  non-null pointer points to. \<open>preferConstants\<close> says whether the build defines
  \<open>NC_PREFER_CONSTANTS_TO_EXPRESSIONS\<close>.
\<close>

record analyzer =
  func :: ptr
  terms :: "ptr \<Rightarrow> ir_term"
  statements :: "ptr \<Rightarrow> statement"
  census_statements :: "ptr list"
  census_terms :: "ptr list"
  getReturns :: "ptr list"
  getMemoryLocation :: "ptr \<Rightarrow> memory_location option"
  getDefinitions :: "ptr \<Rightarrow> chunk list"
  isConcrete :: "ptr \<Rightarrow> bool"
  isGlobalMemory :: "memory_location \<Rightarrow> bool"
  nodes :: "cflow_node list"
  getCalleeId_function :: "ptr \<Rightarrow> calleeId option"
  getCalleeId_call :: "ptr \<Rightarrow> calleeId option"
  getCallHook :: "ptr \<Rightarrow> callHook option"
  getReturnHook :: "ptr \<Rightarrow> ptr \<Rightarrow> returnHook option"
  getSignature :: "calleeId \<Rightarrow> signature option"
  preferConstants :: bool

text \<open>
  The mutable state of the analyzer: the \<open>Liveness\<close> set it fills, its member
  \<open>deadJumps_\<close>, and the warnings it has logged with \<open>ncWarning\<close>.
\<close>

record liveness_state =
  liveTerms :: "ptr set"
  deadJumps :: "ptr list"
  warnings :: "string list"

text \<open>A failed \<open>assert\<close> aborts the process.\<close>

datatype error = AssertionFailed

definition ncWarning :: "string \<Rightarrow> liveness_state \<Rightarrow> liveness_state" where
  "ncWarning msg s = s\<lparr>warnings := warnings s @ [msg]\<rparr>"

subsection \<open>makeLive and propagateLiveness\<close>

function makeLive :: "analyzer \<Rightarrow> ptr \<Rightarrow> liveness_state \<Rightarrow> error + liveness_state"
  and propagateLiveness :: "analyzer \<Rightarrow> ptr \<Rightarrow> liveness_state \<Rightarrow> error + liveness_state"
  and makeLive_foreach :: "analyzer \<Rightarrow> ptr list \<Rightarrow> liveness_state \<Rightarrow> error + liveness_state"
where
  "makeLive E t s =
     (if t = 0 then Inl AssertionFailed
      else if t \<in> liveTerms s then Inr s
      else propagateLiveness E t (s\<lparr>liveTerms := insert t (liveTerms s)\<rparr>))"
| "propagateLiveness E t s =
     (if t = 0 then Inl AssertionFailed
      else if preferConstants E \<and> isRead (terms E t) \<and> isConcrete E t then Inr s
      else case node (terms E t) of
        IntConst \<Rightarrow> Inr s
      | Intrinsic \<Rightarrow> Inr s
      | Undefined \<Rightarrow> Inr s
      | MemoryLocationAccess ml \<Rightarrow>
          (if isRead (terms E t) then
             makeLive_foreach E (concat (map definitions (getDefinitions E t))) s
           else if isWrite (terms E t) then
             (if source (terms E t) \<noteq> 0 then makeLive E (source (terms E t)) s else Inr s)
           else Inr s)
      | Dereference a \<Rightarrow>
          (case (if isRead (terms E t) then
                   makeLive_foreach E (concat (map definitions (getDefinitions E t))) s
                 else if isWrite (terms E t) then
                   (if source (terms E t) \<noteq> 0 then makeLive E (source (terms E t)) s
                    else Inr s)
                 else Inr s) of
             Inl e \<Rightarrow> Inl e
           | Inr s' \<Rightarrow>
               (if getMemoryLocation E t = None then makeLive E a s' else Inr s'))
      | UnaryOperator x \<Rightarrow> makeLive E x s
      | BinaryOperator l r \<Rightarrow>
          (case makeLive E l s of Inl e \<Rightarrow> Inl e | Inr s' \<Rightarrow> makeLive E r s')
      | Choice p d \<Rightarrow>
          (if getDefinitions E p \<noteq> [] then makeLive E p s else makeLive E d s)
      | UnsupportedTerm k \<Rightarrow>
          Inr (ncWarning ''Was called for unsupported kind of term.'' s))"
| "makeLive_foreach E [] s = Inr s"
| "makeLive_foreach E (t # ts) s =
     (case makeLive E t s of Inl e \<Rightarrow> Inl e | Inr s' \<Rightarrow> makeLive_foreach E ts s')"
  by pat_completeness auto

text \<open>
  Termination: every call of \<open>propagateLiveness\<close> comes after a term that was not live
  has been inserted, and the set only grows. The growth is needed for the calls that
  continue from the state an earlier call returned, so it is proved first, on the domain
  of the functions.
\<close>

lemma makeLive_grows_on_domain:
  "makeLive_propagateLiveness_makeLive_foreach_dom (Inl (E, t, s)) \<Longrightarrow>
     (\<forall>s'. makeLive E t s = Inr s' \<longrightarrow> liveTerms s \<subseteq> liveTerms s')"
  "makeLive_propagateLiveness_makeLive_foreach_dom (Inr (Inl (E, t, s))) \<Longrightarrow>
     (\<forall>s'. propagateLiveness E t s = Inr s' \<longrightarrow> liveTerms s \<subseteq> liveTerms s')"
  "makeLive_propagateLiveness_makeLive_foreach_dom (Inr (Inr (E, ts, s))) \<Longrightarrow>
     (\<forall>s'. makeLive_foreach E ts s = Inr s' \<longrightarrow> liveTerms s \<subseteq> liveTerms s')"
proof (induct rule: makeLive_propagateLiveness_makeLive_foreach.pinduct)
  case (1 E t s)
  then show ?case
    by (auto simp: makeLive.psimps split: if_splits)
next
  case (2 E t s)
  note eq = propagateLiveness.psimps [OF 2(1)]
  show ?case
  proof (intro allI impI)
    fix s' assume r: "propagateLiveness E t s = Inr s'"
    show "liveTerms s \<subseteq> liveTerms s'"
    proof (cases "t = 0 \<or> (preferConstants E \<and> isRead (terms E t) \<and> isConcrete E t)")
      case True
      with r eq show ?thesis by (auto split: if_splits)
    next
      case False
      then have nz: "t \<noteq> 0"
        and nc: "\<not> (preferConstants E \<and> isRead (terms E t) \<and> isConcrete E t)"
        by auto
      show ?thesis
      proof (cases "node (terms E t)")
        case IntConst
        with r eq nz nc show ?thesis by simp
      next
        case Intrinsic
        with r eq nz nc show ?thesis by simp
      next
        case Undefined
        with r eq nz nc show ?thesis by simp
      next
        case (MemoryLocationAccess ml)
        with r eq nz nc 2(2) [OF nz nc MemoryLocationAccess] 2(3) [OF nz nc MemoryLocationAccess]
        show ?thesis by (simp split: if_splits)
      next
        case (Dereference a)
        from r eq nz nc Dereference obtain s1 where
          s1: "(if isRead (terms E t)
                then makeLive_foreach E (concat (map definitions (getDefinitions E t))) s
                else if isWrite (terms E t)
                     then if source (terms E t) \<noteq> 0
                          then makeLive E (source (terms E t)) s else Inr s
                     else Inr s) = Inr s1"
          and s2: "(if getMemoryLocation E t = None then makeLive E a s1 else Inr s1) = Inr s'"
          by (simp split: sum.splits)
        from s1 2(4) [OF nz nc Dereference] 2(5) [OF nz nc Dereference]
        have "liveTerms s \<subseteq> liveTerms s1" by (simp split: if_splits)
        moreover from s2 2(6) [OF nz nc Dereference s1]
        have "liveTerms s1 \<subseteq> liveTerms s'" by (simp split: if_splits)
        ultimately show ?thesis by blast
      next
        case (UnaryOperator x)
        with r eq nz nc 2(7) [OF nz nc UnaryOperator] show ?thesis by simp
      next
        case (BinaryOperator l r')
        from r eq nz nc BinaryOperator obtain s1 where
          s1: "makeLive E l s = Inr s1" and s2: "makeLive E r' s1 = Inr s'"
          by (simp split: sum.splits)
        from s1 2(8) [OF nz nc BinaryOperator] have "liveTerms s \<subseteq> liveTerms s1" by simp
        moreover from s2 2(9) [OF nz nc BinaryOperator s1]
        have "liveTerms s1 \<subseteq> liveTerms s'" by simp
        ultimately show ?thesis by blast
      next
        case (Choice p d)
        with r eq nz nc 2(10) [OF nz nc Choice] 2(11) [OF nz nc Choice]
        show ?thesis by (simp split: if_splits)
      next
        case (UnsupportedTerm k)
        with r eq nz nc show ?thesis by (auto simp: ncWarning_def)
      qed
    qed
  qed
next
  case (3 E s)
  then show ?case by (simp add: makeLive_foreach.psimps)
next
  case (4 E t ts s)
  then show ?case
    by (fastforce simp: makeLive_foreach.psimps split: sum.splits)
qed

lemma card_compl_mono:
  fixes A B :: "ptr set"
  assumes "A \<subseteq> B" and "card (- B) \<noteq> card (- A)"
  shows "card (- B) < card (- A)"
proof -
  have "card (- B) \<le> card (- A)"
    using assms(1) by (intro card_mono) auto
  with assms(2) show ?thesis by simp
qed

lemma card_compl_insert:
  fixes A :: "ptr set"
  assumes "t \<notin> A"
  shows "card (- insert t A) < card (- A)"
  using assms by (intro psubset_card_mono) auto

lemma makeLive_total: "All makeLive_propagateLiveness_makeLive_foreach_dom"
  apply (relation "inv_image (less_than <*lex*> less_than <*lex*> less_than)
      (\<lambda>x. case x of
          Inl (E, t, s) \<Rightarrow> (card (- liveTerms s), 0::nat, 0::nat)
        | Inr (Inl (E, t, s)) \<Rightarrow> (card (- liveTerms s), 2, 0)
        | Inr (Inr (E, ts, s)) \<Rightarrow> (card (- liveTerms s), 1, length ts))")
  apply (auto simp: card_compl_insert dest!: makeLive_grows_on_domain split: if_splits
      intro: card_compl_mono)
  done

termination makeLive
  by (rule makeLive_total)

declare makeLive.simps [simp del] propagateLiveness.simps [simp del]

text \<open>
  The calls of \<open>makeLive\<close> that \<open>propagateLiveness\<close> makes for a term, in the order
  in which it makes them: none when the build prefers constants and the term is a read
  with a concrete value; otherwise the reaching definitions of a read or the source of a
  write for the two kinds of memory terms, followed by the address of a dereference with no
  memory location, and the operands of the operators. \<open>warnsAt\<close> tells when
  \<open>propagateLiveness\<close> reaches the \<open>default\<close> label.
\<close>

definition stopsPropagation :: "analyzer \<Rightarrow> ptr \<Rightarrow> bool" where
  "stopsPropagation E t = (preferConstants E \<and> isRead (terms E t) \<and> isConcrete E t)"

definition dataflowChain :: "analyzer \<Rightarrow> ptr \<Rightarrow> ptr list" where
  "dataflowChain E t =
     (if isRead (terms E t) then concat (map definitions (getDefinitions E t))
      else if isWrite (terms E t) then (if source (terms E t) \<noteq> 0 then [source (terms E t)] else [])
      else [])"

definition propagated :: "analyzer \<Rightarrow> ptr \<Rightarrow> ptr list" where
  "propagated E t =
     (if stopsPropagation E t then []
      else case node (terms E t) of
        IntConst \<Rightarrow> []
      | Intrinsic \<Rightarrow> []
      | Undefined \<Rightarrow> []
      | MemoryLocationAccess ml \<Rightarrow> dataflowChain E t
      | Dereference a \<Rightarrow>
          dataflowChain E t @ (if getMemoryLocation E t = None then [a] else [])
      | UnaryOperator x \<Rightarrow> [x]
      | BinaryOperator l r \<Rightarrow> [l, r]
      | Choice p d \<Rightarrow> (if getDefinitions E p \<noteq> [] then [p] else [d])
      | UnsupportedTerm k \<Rightarrow> [])"

definition warnsAt :: "analyzer \<Rightarrow> ptr \<Rightarrow> bool" where
  "warnsAt E t =
     (\<not> stopsPropagation E t \<and> (case node (terms E t) of UnsupportedTerm k \<Rightarrow> True | _ \<Rightarrow> False))"

text \<open>
  Two notions for stating what the traversal achieves. A set of terms is closed when it
  contains, with each of its terms, every term that \<open>propagateLiveness\<close> passes to
  \<open>makeLive\<close> for it; during the traversal this holds except for the terms whose
  propagation is still under way. A state advances to another when the live set has only
  grown and the dead-jump list is the same.
\<close>

definition closedExcept :: "analyzer \<Rightarrow> ptr set \<Rightarrow> ptr set \<Rightarrow> bool" where
  "closedExcept E W L = (\<forall>u\<in>L - W. set (propagated E u) \<subseteq> L)"

definition closed :: "analyzer \<Rightarrow> ptr set \<Rightarrow> bool" where
  "closed E L = (\<forall>u\<in>L. set (propagated E u) \<subseteq> L)"

definition advances :: "liveness_state \<Rightarrow> liveness_state \<Rightarrow> bool" where
  "advances s s' = (liveTerms s \<subseteq> liveTerms s' \<and> deadJumps s' = deadJumps s)"


subsection \<open>Membership in the sorted dead-jump list\<close>

text \<open>
  \<open>std::binary_search\<close> over a range: \<open>std::lower_bound\<close> halves the range
  \<open>[first, first + count)\<close> until it is empty, and the value is found if the position
  reached is inside the range and does not hold a greater element.
\<close>

function lower_bound :: "'a::linorder list \<Rightarrow> 'a \<Rightarrow> nat \<Rightarrow> nat \<Rightarrow> nat" where
  "lower_bound xs v first count =
     (if count = 0 then first
      else let step = count div 2; it = first + step in
        if xs ! it < v then lower_bound xs v (it + 1) (count - (step + 1))
        else lower_bound xs v first step)"
  by pat_completeness auto
termination
  by (relation "measure (\<lambda>(xs, v, first, count). count)") auto

declare lower_bound.simps [simp del]

definition binary_search :: "'a::linorder list \<Rightarrow> 'a \<Rightarrow> bool" where
  "binary_search xs v =
     (let first = lower_bound xs v 0 (length xs)
      in first \<noteq> length xs \<and> \<not> v < xs ! first)"

subsection \<open>Seeding\<close>

text \<open>A \<open>foreach\<close> loop whose body may abort, and sequencing of two such steps.\<close>

fun foreach :: "('a \<Rightarrow> 's \<Rightarrow> error + 's) \<Rightarrow> 'a list \<Rightarrow> 's \<Rightarrow> error + 's" where
  "foreach body [] s = Inr s"
| "foreach body (x # xs) s =
     (case body x s of Inl e \<Rightarrow> Inl e | Inr s' \<Rightarrow> foreach body xs s')"

definition andThen :: "error + 's \<Rightarrow> ('s \<Rightarrow> error + 's) \<Rightarrow> error + 's" where
  "andThen r k = (case r of Inl e \<Rightarrow> Inl e | Inr s \<Rightarrow> k s)"

text \<open>\<open>computeLiveness(const Statement *)\<close>; \<open>p\<close> is the statement pointer.\<close>

definition computeLiveness_statement ::
  "analyzer \<Rightarrow> ptr \<Rightarrow> liveness_state \<Rightarrow> error + liveness_state" where
  "computeLiveness_statement E p s =
     (case statements E p of
        Comment \<Rightarrow> Inr s
      | InlineAssembly \<Rightarrow> Inr s
      | Assignment \<Rightarrow> Inr s
      | Kill \<Rightarrow> Inr s
      | Jump c th el \<Rightarrow>
          (if \<not> binary_search (deadJumps s) p then
             andThen (if c \<noteq> 0 then makeLive E c s else Inr s) (\<lambda>s.
             andThen (if address th \<noteq> 0 then makeLive E (address th) s else Inr s) (\<lambda>s.
             if address el \<noteq> 0 then makeLive E (address el) s else Inr s))
           else Inr s)
      | Call tg \<Rightarrow>
          andThen (makeLive E tg s) (\<lambda>s.
            case getCalleeId_call E p of
              None \<Rightarrow> Inr s
            | Some calleeId \<Rightarrow>
                (case getSignature E calleeId of
                   None \<Rightarrow> Inr s
                 | Some sig \<Rightarrow>
                     (case getCallHook E p of
                        None \<Rightarrow> Inr s
                      | Some callHook \<Rightarrow>
                          foreach (\<lambda>memoryLocation. makeLive E (callHook memoryLocation))
                            (arguments sig) s)))
      | Return \<Rightarrow> Inr s
      | UnsupportedStatement k \<Rightarrow>
          Inr (ncWarning ''Was called for unsupported kind of statement.'' s))"

text \<open>\<open>computeLiveness(const Term *)\<close>; \<open>t\<close> is the term pointer.\<close>

definition computeLiveness_term ::
  "analyzer \<Rightarrow> ptr \<Rightarrow> liveness_state \<Rightarrow> error + liveness_state" where
  "computeLiveness_term E t s =
     (case node (terms E t) of
        IntConst \<Rightarrow> Inr s
      | Intrinsic \<Rightarrow> Inr s
      | Undefined \<Rightarrow> Inr s
      | MemoryLocationAccess ml \<Rightarrow>
          (if isWrite (terms E t) then
             (if isGlobalMemory E ml then makeLive E t s else Inr s)
           else Inr s)
      | Dereference a \<Rightarrow>
          (if isWrite (terms E t) then
             (case getMemoryLocation E t of
                None \<Rightarrow> makeLive E t s
              | Some ml \<Rightarrow> if isGlobalMemory E ml then makeLive E t s else Inr s)
           else Inr s)
      | UnaryOperator x \<Rightarrow> Inr s
      | BinaryOperator l r \<Rightarrow> Inr s
      | Choice p d \<Rightarrow> Inr s
      | UnsupportedTerm k \<Rightarrow>
          Inr (ncWarning ''Was called for unsupported kind of term.'' s))"

text \<open>
  The first loop of \<open>analyze\<close>: the terminating jump of the bounds-check block of every
  switch region that has one is appended to \<open>deadJumps_\<close>.
\<close>

fun collectDeadJumps :: "cflow_node list \<Rightarrow> ptr list \<Rightarrow> ptr list" where
  "collectDeadJumps [] acc = acc"
| "collectDeadJumps (n # ns) acc =
     collectDeadJumps ns
       (case n of
          BasicNode b \<Rightarrow> acc
        | Region r \<Rightarrow>
            (case r of
               Switch bc \<Rightarrow>
                 (case bc of None \<Rightarrow> acc | Some b \<Rightarrow> acc @ [getJump (basicBlock b)])
             | OtherRegion k \<Rightarrow> acc))"

text \<open>
  \<open>analyze\<close>: clear and refill \<open>deadJumps_\<close>, sort it, seed from the statements and
  the terms of the census, then from the return statements.
\<close>

definition analyze :: "analyzer \<Rightarrow> liveness_state \<Rightarrow> error + liveness_state" where
  "analyze E s0 =
     (let s1 = s0\<lparr>deadJumps := sort (collectDeadJumps (nodes E) [])\<rparr> in
      andThen (foreach (computeLiveness_statement E) (census_statements E) s1) (\<lambda>s.
      andThen (foreach (computeLiveness_term E) (census_terms E) s) (\<lambda>s.
        case getCalleeId_function E (func E) of
          None \<Rightarrow> Inr s
        | Some calleeId \<Rightarrow>
            (case getSignature E calleeId of
               None \<Rightarrow> Inr s
             | Some sig \<Rightarrow>
                 (case returnValue sig of
                    None \<Rightarrow> Inr s
                  | Some rv \<Rightarrow>
                      foreach (\<lambda>ret s.
                          case getReturnHook E (func E) ret of
                            None \<Rightarrow> Inr s
                          | Some returnHook \<Rightarrow> makeLive E (returnHook rv) s)
                        (getReturns E) s)))))"

section \<open>The pipeline controller (nc/core/MasterAnalyzer.cpp)\<close>

subsection \<open>Naming functions\<close>

text \<open>
  \<open>QString::arg(value, 0, 16)\<close>: the value in lowercase hexadecimal, without padding.
\<close>

definition hexDigit :: "nat \<Rightarrow> char" where
  "hexDigit d = ''0123456789abcdef'' ! d"

function hex :: "nat \<Rightarrow> string" where
  "hex n = (if n < 16 then [hexDigit n] else hex (n div 16) @ [hexDigit (n mod 16)])"
  by pat_completeness auto
termination
  by (relation "measure id") auto

declare hex.simps [simp del]

text \<open>
  Reading such a text back as a number, to state that it denotes the value: each
  character counts as its position among the sixteen digits.
\<close>

definition digitValue :: "char \<Rightarrow> nat" where
  "digitValue c = length (takeWhile (\<lambda>d. d \<noteq> c) ''0123456789abcdef'')"

definition hexValue :: "string \<Rightarrow> nat" where
  "hexValue cs = foldl (\<lambda>v c. 16 * v + digitValue c) 0 cs"

text \<open>
  A function as \<open>pickFunctionName\<close> sees it: \<open>self\<close> is the address of the
  \<open>Function\<close> object, \<open>entry\<close> its entry block when it has one, whose address is
  optional. The comment is kept as the list of the texts appended to it.

  A \<open>Hooks\<close> object holds references to the \<open>Conventions\<close> and
  \<open>Signatures\<close> it was constructed over. Artifacts are identified by the address of
  the object; \<open>allocated\<close> counts the objects created so far, so that
  \<open>make_unique\<close> returns an object distinct from all earlier ones.

  Modelled from the spec: \<open>Context\<close> is a store with one slot per artifact, and reading
  an unset slot fails with \<open>PreconditionNotMet\<close>. The journal lists, in order, what the
  controller has logged, polled and stored.
\<close>

record ir_function =
  self :: ptr
  entry :: "basicBlock option"
  name :: string
  comment :: "string list"

type_synonym obj = nat

record hooks_object =
  hooks_id :: obj
  conventions_ref :: obj
  signatures_ref :: obj
  conventionDetector :: bool

datatype slot =
    ProgramSlot | FunctionsSlot | SignaturesSlot | ConventionsSlot | HooksSlot
  | DataflowsSlot | VariablesSlot | GraphsSlot | LivenessesSlot | TypesSlot
  | TreeSlot | TermToFunctionSlot

datatype event =
    Log string
  | Poll
  | AnalyzerPoll
  | Set slot obj
  | Emplace slot ptr

record nc_context =
  program :: "obj option"
  functions' :: "(obj \<times> ir_function list) option"
  signatures :: "obj option"
  conventions :: "obj option"
  hooks :: "hooks_object option"
  dataflows :: "(obj \<times> ptr list) option"
  variables :: "obj option"
  graphs :: "(obj \<times> ptr list) option"
  livenesses :: "(obj \<times> (ptr \<times> ptr set) list) option"
  types :: "obj option"
  tree :: "obj option"
  termToFunction :: "obj option"
  allocated :: nat
  journal :: "event list"

record env =
  getName :: "ByteAddr \<Rightarrow> string"
  demangle :: "string \<Rightarrow> string"
  cleanName :: "string \<Rightarrow> string"
  makeFunctions :: "ir_function list"
  cancelled :: "nat \<Rightarrow> bool"
  livenessInputs :: "ptr \<Rightarrow> analyzer"
  treeChecks :: bool
  treeConsistent :: bool

datatype outcome = Completed | Cancelled | PreconditionNotMet | Aborted

type_synonym phase = "nc_context \<Rightarrow> outcome \<times> nc_context"

text \<open>
  \<open>pickFunctionName\<close>. \<open>getName\<close> is \<open>Module::getName\<close>, \<open>cleanName\<close> is
  \<open>likec::Tree::cleanName\<close> and \<open>demangle\<close> is the module's demangler.
\<close>

definition pickFunctionName :: "env \<Rightarrow> ir_function \<Rightarrow> ir_function" where
  "pickFunctionName M f =
     (case (case entry f of None \<Rightarrow> None | Some b \<Rightarrow> blockAddress b) of
        Some a \<Rightarrow>
          (let name = getName M a in
           if name \<noteq> [] then
             (let cleanName = cleanName M name;
                  f1 = f\<lparr>name := cleanName\<rparr>;
                  f2 = (if name \<noteq> cleanName then f1\<lparr>comment := comment f1 @ [name]\<rparr> else f1);
                  demangledName = demangle M name
              in if CHR ''('' \<in> set demangledName
                 then f2\<lparr>comment := comment f2 @ [demangledName]\<rparr> else f2)
           else f\<lparr>name := ''func_'' @ hex (unat a)\<rparr>)
      | None \<Rightarrow> f\<lparr>name := ''func_noentry_'' @ hex (unat (self f))\<rparr>)"

subsection \<open>Phases\<close>

text \<open>
  A phase runs on the context and either completes or stops the run: with
  \<open>Cancelled\<close> when a poll finds the token cancelled, with \<open>PreconditionNotMet\<close>
  when it reads a slot that is not set, with \<open>Aborted\<close> when an assertion fails.
  \<open>run\<close> executes phases in sequence up to the first that does not complete.
  \<open>cancelled E n\<close> tells whether the token is found cancelled by a poll made when the
  journal has \<open>n\<close> entries. Analyzers that are handed the token poll it themselves
  (\<open>AnalyzerPoll\<close>).
\<close>

fun run :: "phase list \<Rightarrow> phase" where
  "run [] c = (Completed, c)"
| "run (p # ps) c = (case p c of (r, c') \<Rightarrow> if r = Completed then run ps c' else (r, c'))"














































section \<open>Example inputs\<close>

text \<open>
  A small function for the analyzer: a store to global memory (term 2), a store through an
  unresolved pointer (term 3), a jump that ends the bounds-check block of a switch (101)
  and one that does not (102), a call with a signature and a call hook (103), a return
  with a return hook (104), and one statement and one term of unsupported kinds
  (105 and 20).
\<close>

definition readTerm :: "term_node \<Rightarrow> ir_term" where
  "readTerm n = \<lparr>node = n, accessType = READ, source = 0\<rparr>"

definition writeTerm :: "term_node \<Rightarrow> ptr \<Rightarrow> ir_term" where
  "writeTerm n src = \<lparr>node = n, accessType = WRITE, source = src\<rparr>"

definition demo_terms :: "ptr \<Rightarrow> ir_term" where
  "demo_terms p =
     (if p = 1 then readTerm IntConst
      else if p = 2 then writeTerm (MemoryLocationAccess (1, 4096, 32)) 1
      else if p = 3 then writeTerm (Dereference 4) 5
      else if p = 4 then readTerm (MemoryLocationAccess (2, 0, 32))
      else if p = 5 then readTerm (BinaryOperator 7 8)
      else if p = 6 then writeTerm (MemoryLocationAccess (2, 0, 32)) 9
      else if p = 7 then readTerm (UnaryOperator 12)
      else if p = 8 then readTerm (Choice 10 11)
      else if p = 9 then readTerm Intrinsic
      else if p = 10 then readTerm (MemoryLocationAccess (2, 32, 32))
      else if p = 11 then readTerm Undefined
      else if p = 12 then readTerm (MemoryLocationAccess (2, 64, 32))
      else if p = 13 then writeTerm (MemoryLocationAccess (2, 64, 32)) 14
      else if p = 14 then readTerm IntConst
      else if p = 15 then readTerm (MemoryLocationAccess (2, 96, 32))
      else if p = 16 then readTerm (MemoryLocationAccess (2, 128, 32))
      else if p = 17 then readTerm (MemoryLocationAccess (2, 160, 32))
      else if p = 18 then writeTerm (MemoryLocationAccess (2, 200, 32)) 19
      else if p = 19 then readTerm IntConst
      else if p = 21 then readTerm (MemoryLocationAccess (3, 0, 32))
      else if p = 22 then readTerm (MemoryLocationAccess (2, 300, 32))
      else if p = 23 then writeTerm (MemoryLocationAccess (2, 300, 32)) 24
      else if p = 24 then readTerm IntConst
      else if p = 25 then writeTerm (MemoryLocationAccess (2, 400, 32)) 1
      else readTerm (UnsupportedTerm 1000))"

definition demo_statements :: "ptr \<Rightarrow> statement" where
  "demo_statements p =
     (if p = 100 then Assignment
      else if p = 101 then Jump 12 (JumpTarget 22) (JumpTarget 0)
      else if p = 102 then Jump 15 (JumpTarget 16) (JumpTarget 0)
      else if p = 103 then Call 17
      else if p = 104 then Return
      else if p = 105 then UnsupportedStatement 1000
      else Comment)"

definition demo :: analyzer where
  "demo = \<lparr>func = 200, terms = demo_terms, statements = demo_statements,
     census_statements = [100, 101, 102, 103, 104, 105],
     census_terms = [1, 2, 3, 4, 5, 6, 7, 8, 9, 10, 11, 12, 13, 14, 15, 16, 17, 18, 19, 20,
       21, 22, 23, 24, 25],
     getReturns = [104],
     getMemoryLocation = (\<lambda>p. None),
     getDefinitions =
       (\<lambda>p. if p = 4 then [\<lparr>location = (2, 0, 32), definitions = [6]\<rparr>]
            else if p = 12 then [\<lparr>location = (2, 64, 32), definitions = [13]\<rparr>]
            else if p = 22 then [\<lparr>location = (2, 300, 32), definitions = [23]\<rparr>]
            else []),
     isConcrete = (\<lambda>p. False),
     isGlobalMemory = (\<lambda>ml. fst ml = 1),
     nodes = [BasicNode \<lparr>basicBlock = \<lparr>blockAddress = Some 4198400, getJump = 102\<rparr>\<rparr>,
              Region (Switch (Some \<lparr>basicBlock = \<lparr>blockAddress = Some 4198464, getJump = 101\<rparr>\<rparr>)),
              Region (Switch None), Region (OtherRegion 3)],
     getCalleeId_function = (\<lambda>f. if f = 200 then Some 7 else None),
     getCalleeId_call = (\<lambda>c. if c = 103 then Some 8 else None),
     getCallHook = (\<lambda>c. if c = 103 then Some (\<lambda>ml. 18) else None),
     getReturnHook = (\<lambda>f r. if f = 200 \<and> r = 104 then Some (\<lambda>ml. 21) else None),
     getSignature =
       (\<lambda>i. if i = 8 then Some \<lparr>arguments = [(2, 200, 32)], returnValue = None\<rparr>
            else if i = 7 then Some \<lparr>arguments = [], returnValue = Some (3, 0, 32)\<rparr>
            else None),
     preferConstants = False\<rparr>"

definition emptyLiveness :: liveness_state where
  "emptyLiveness = \<lparr>liveTerms = {}, deadJumps = [], warnings = []\<rparr>"

definition demo_result :: liveness_state where
  "demo_result = \<lparr>liveTerms = {1, 2, 3, 4, 5, 6, 7, 8, 9, 11, 12, 13, 14, 15, 16, 17, 18, 19, 21},
     deadJumps = [101],
     warnings = [''Was called for unsupported kind of statement.'',
                 ''Was called for unsupported kind of term.'']\<rparr>"


text \<open>
  The same function in a build that prefers constants, where term 5 has a concrete value;
  and with a call hook that has no argument term for the location of the signature.
\<close>

definition demo_pc :: analyzer where
  "demo_pc = demo\<lparr>isConcrete := (\<lambda>p. p = 5), preferConstants := True\<rparr>"




definition emptyFunction :: analyzer where
  "emptyFunction = demo\<lparr>census_statements := [], census_terms := [], getReturns := [], nodes := []\<rparr>"

definition demo_env :: env where
  "demo_env = \<lparr>getName = (\<lambda>a. if a = 4198400 then ''_Z3fooi'' else if a = 4198656 then ''main'' else []),
     demangle = (\<lambda>n. if n = ''_Z3fooi'' then ''foo(int)'' else n),
     cleanName = (\<lambda>n. n),
     makeFunctions =
       [\<lparr>self = 200, entry = Some \<lparr>blockAddress = Some 4198400, getJump = 102\<rparr>,
          name = [], comment = []\<rparr>,
        \<lparr>self = 300, entry = Some \<lparr>blockAddress = Some 4198912, getJump = 0\<rparr>,
          name = [], comment = []\<rparr>],
     cancelled = (\<lambda>n. False),
     livenessInputs = (\<lambda>f. if f = 200 then demo else emptyFunction),
     treeChecks = False, treeConsistent = True\<rparr>"


text \<open>
  Functions to name: one with a symbol at its entry address, one with an address but no
  symbol, one without an entry and one whose entry has no address.
\<close>

definition fn_symbol :: ir_function where
  "fn_symbol = \<lparr>self = 200, entry = Some \<lparr>blockAddress = Some 4198400, getJump = 102\<rparr>,
     name = [], comment = []\<rparr>"

definition fn_address :: ir_function where
  "fn_address = \<lparr>self = 300, entry = Some \<lparr>blockAddress = Some 4198912, getJump = 0\<rparr>,
     name = [], comment = []\<rparr>"

definition fn_noentry :: ir_function where
  "fn_noentry = \<lparr>self = 400, entry = None, name = [], comment = []\<rparr>"

definition fn_noaddress :: ir_function where
  "fn_noaddress = \<lparr>self = 500, entry = Some \<lparr>blockAddress = None, getJump = 0\<rparr>,
     name = [], comment = [''synthesized'']\<rparr>"


section \<open>Properties of the liveness analysis\<close>

subsection \<open>Propagation as a traversal\<close>

lemma makeLive_grows:
  "makeLive E t s = Inr s' \<Longrightarrow> liveTerms s \<subseteq> liveTerms s'"
  using makeLive_grows_on_domain(1) makeLive_total by blast

lemma makeLive_foreach_grows:
  "makeLive_foreach E ts s = Inr s' \<Longrightarrow> liveTerms s \<subseteq> liveTerms s'"
  using makeLive_grows_on_domain(3) makeLive_total by blast

lemma makeLive_foreach_append:
  "makeLive_foreach E (xs @ ys) s =
     (case makeLive_foreach E xs s of Inl e \<Rightarrow> Inl e | Inr s' \<Rightarrow> makeLive_foreach E ys s')"
  by (induction xs arbitrary: s) (auto split: sum.splits)

lemma sum_case_same: "(case x of Inl e \<Rightarrow> Inl e | Inr s \<Rightarrow> Inr s) = x"
  by (cases x) auto

lemma makeLive_foreach_single: "makeLive_foreach E [x] s = makeLive E x s"
  by (simp add: sum_case_same cong: sum.case_cong)

lemma dataflowChain_eq:
  "(if isRead (terms E t) then
      makeLive_foreach E (concat (map definitions (getDefinitions E t))) s
    else if isWrite (terms E t) then
      (if source (terms E t) \<noteq> 0 then makeLive E (source (terms E t)) s else Inr s)
    else Inr s) = makeLive_foreach E (dataflowChain E t) s"
  by (simp add: dataflowChain_def makeLive_foreach_single del: makeLive_foreach.simps(2))

lemma propagateLiveness_eq:
  assumes "t \<noteq> 0"
  shows "propagateLiveness E t s =
     (if warnsAt E t then Inr (ncWarning ''Was called for unsupported kind of term.'' s)
      else makeLive_foreach E (propagated E t) s)"
proof (cases "stopsPropagation E t")
  case True
  then show ?thesis
    using assms by (simp add: propagateLiveness.simps propagated_def warnsAt_def stopsPropagation_def)
next
  case False
  then have nc: "\<not> (preferConstants E \<and> isRead (terms E t) \<and> isConcrete E t)"
    by (simp add: stopsPropagation_def)
  have unfold: "propagateLiveness E t s =
      (case node (terms E t) of
        IntConst \<Rightarrow> Inr s
      | Intrinsic \<Rightarrow> Inr s
      | Undefined \<Rightarrow> Inr s
      | MemoryLocationAccess ml \<Rightarrow> makeLive_foreach E (dataflowChain E t) s
      | Dereference a \<Rightarrow>
          (case makeLive_foreach E (dataflowChain E t) s of
             Inl e \<Rightarrow> Inl e
           | Inr s' \<Rightarrow>
               (if getMemoryLocation E t = None then makeLive E a s' else Inr s'))
      | UnaryOperator x \<Rightarrow> makeLive E x s
      | BinaryOperator l r \<Rightarrow>
          (case makeLive E l s of Inl e \<Rightarrow> Inl e | Inr s' \<Rightarrow> makeLive E r s')
      | Choice p d \<Rightarrow>
          (if getDefinitions E p \<noteq> [] then makeLive E p s else makeLive E d s)
      | UnsupportedTerm k \<Rightarrow>
          Inr (ncWarning ''Was called for unsupported kind of term.'' s))"
    using assms nc by (subst propagateLiveness.simps) (simp only: dataflowChain_eq if_False)
  show ?thesis
  proof (cases "node (terms E t)")
    case (Dereference a)
    show ?thesis
    proof (cases "getMemoryLocation E t")
      case None
      with Dereference False show ?thesis
        by (simp add: unfold propagated_def warnsAt_def makeLive_foreach_append
            makeLive_foreach_single del: makeLive_foreach.simps(2) cong: sum.case_cong)
    next
      case (Some ml)
      with Dereference False show ?thesis
        by (simp add: unfold propagated_def warnsAt_def sum_case_same cong: sum.case_cong)
    qed
  next
    case (BinaryOperator l r)
    with False show ?thesis
      by (simp add: unfold propagated_def warnsAt_def sum_case_same cong: sum.case_cong)
  qed (use False in \<open>simp_all add: unfold propagated_def warnsAt_def makeLive_foreach_single
          del: makeLive_foreach.simps(2)\<close>)
qed

lemma makeLive_eq:
  "makeLive E t s =
     (if t = 0 then Inl AssertionFailed
      else if t \<in> liveTerms s then Inr s
      else if warnsAt E t then
        Inr (ncWarning ''Was called for unsupported kind of term.''
               (s\<lparr>liveTerms := insert t (liveTerms s)\<rparr>))
      else makeLive_foreach E (propagated E t) (s\<lparr>liveTerms := insert t (liveTerms s)\<rparr>))"
  by (simp add: makeLive.simps propagateLiveness_eq)

lemma makeLive_induct [case_names makeLive Nil Cons]:
  assumes mk: "\<And>t s. (t \<noteq> 0 \<Longrightarrow> t \<notin> liveTerms s \<Longrightarrow> \<not> warnsAt E t \<Longrightarrow>
                   R (propagated E t) (s\<lparr>liveTerms := insert t (liveTerms s)\<rparr>)) \<Longrightarrow> P t s"
    and nil: "\<And>s. R [] s"
    and cons: "\<And>t ts s. P t s \<Longrightarrow> (\<And>s'. makeLive E t s = Inr s' \<Longrightarrow> R ts s') \<Longrightarrow> R (t # ts) s"
  shows "P t s" and "R ts s"
proof -
  have main: "\<forall>s. card (- liveTerms s) = n \<longrightarrow> (\<forall>t. P t s) \<and> (\<forall>ts. R ts s)" for n
  proof (induction n rule: less_induct)
    case (less n)
    have P_le: "P t s" if "card (- liveTerms s) \<le> n" for t s
    proof (rule mk)
      assume "t \<notin> liveTerms s"
      then have "card (- liveTerms (s\<lparr>liveTerms := insert t (liveTerms s)\<rparr>)) < n"
        using card_compl_insert [of t "liveTerms s"] that by simp
      then show "R (propagated E t) (s\<lparr>liveTerms := insert t (liveTerms s)\<rparr>)"
        using less.IH by blast
    qed
    have R_le: "R ts s" if "card (- liveTerms s) \<le> n" for ts s
      using that
    proof (induction ts arbitrary: s)
      case Nil
      show ?case by (rule nil)
    next
      case (Cons t ts)
      show ?case
      proof (rule cons)
        show "P t s" using Cons.prems by (rule P_le)
      next
        fix s' assume "makeLive E t s = Inr s'"
        then have "liveTerms s \<subseteq> liveTerms s'" by (rule makeLive_grows)
        then have "card (- liveTerms s') \<le> card (- liveTerms s)"
          by (intro card_mono) auto
        with Cons.prems have "card (- liveTerms s') \<le> n" by simp
        then show "R ts s'" by (rule Cons.IH)
      qed
    qed
    show ?case using P_le R_le by simp
  qed
  show "P t s" using main by blast
  show "R ts s" using main by blast
qed

subsection \<open>Binary search\<close>

lemma lower_bound_correct:
  assumes "sorted xs"
    and "first + count \<le> length xs"
    and "\<forall>i<first. xs ! i < v"
    and "\<forall>i. first + count \<le> i \<and> i < length xs \<longrightarrow> v \<le> xs ! i"
  shows "lower_bound xs v first count \<le> length xs
       \<and> (\<forall>i<lower_bound xs v first count. xs ! i < v)
       \<and> (\<forall>i. lower_bound xs v first count \<le> i \<and> i < length xs \<longrightarrow> v \<le> xs ! i)"
  using assms
proof (induction xs v first count rule: lower_bound.induct)
  case (1 xs v first count)
  show ?case
  proof (cases "count = 0")
    case True
    with "1.prems" show ?thesis
      by (simp add: lower_bound.simps)
  next
    case False
    define step where "step = count div 2"
    define it where "it = first + step"
    have it_lt: "it < length xs"
      using False "1.prems"(2) unfolding it_def step_def by arith
    show ?thesis
    proof (cases "xs ! it < v")
      case True
      have below: "\<forall>i<it + 1. xs ! i < v"
      proof (intro allI impI)
        fix i assume "i < it + 1"
        then have "i \<le> it" by simp
        then have "xs ! i \<le> xs ! it"
          using "1.prems"(1) it_lt by (simp add: sorted_iff_nth_mono)
        with True show "xs ! i < v" by simp
      qed
      have bound: "it + 1 + (count - (step + 1)) \<le> length xs"
        using "1.prems"(2) False unfolding it_def step_def by arith
      have above: "\<forall>i. it + 1 + (count - (step + 1)) \<le> i \<and> i < length xs \<longrightarrow> v \<le> xs ! i"
      proof (intro allI impI)
        fix i assume i: "it + 1 + (count - (step + 1)) \<le> i \<and> i < length xs"
        have "it + 1 + (count - (step + 1)) = first + count"
          using False unfolding it_def step_def by arith
        with i "1.prems"(4) show "v \<le> xs ! i" by simp
      qed
      have "lower_bound xs v first count = lower_bound xs v (it + 1) (count - (step + 1))"
        using False True by (subst lower_bound.simps) (simp add: Let_def it_def step_def)
      moreover note "1.IH"(1) [OF False step_def it_def True "1.prems"(1) bound below above]
      ultimately show ?thesis by simp
    next
      case nlt: False
      have bound: "first + step \<le> length xs"
        using it_lt by (simp add: it_def)
      have above: "\<forall>i. first + step \<le> i \<and> i < length xs \<longrightarrow> v \<le> xs ! i"
      proof (intro allI impI)
        fix i assume i: "first + step \<le> i \<and> i < length xs"
        then have "xs ! it \<le> xs ! i"
          using "1.prems"(1) by (simp add: sorted_iff_nth_mono it_def)
        with nlt show "v \<le> xs ! i" by simp
      qed
      have "lower_bound xs v first count = lower_bound xs v first step"
        using False nlt by (subst lower_bound.simps) (simp add: Let_def it_def step_def)
      moreover note "1.IH"(2) [OF False step_def it_def nlt "1.prems"(1) bound "1.prems"(3) above]
      ultimately show ?thesis by simp
    qed
  qed
qed

lemma binary_search_iff:
  assumes "sorted xs"
  shows "binary_search xs v \<longleftrightarrow> v \<in> set xs"
proof -
  define r where "r = lower_bound xs v 0 (length xs)"
  have "r \<le> length xs \<and> (\<forall>i<r. xs ! i < v) \<and> (\<forall>i. r \<le> i \<and> i < length xs \<longrightarrow> v \<le> xs ! i)"
    unfolding r_def by (rule lower_bound_correct [OF assms]) auto
  then have r: "r \<le> length xs" "\<forall>i<r. xs ! i < v" "\<forall>i. r \<le> i \<and> i < length xs \<longrightarrow> v \<le> xs ! i"
    by blast+
  show ?thesis
  proof
    assume "binary_search xs v"
    then have "r \<noteq> length xs" "\<not> v < xs ! r"
      by (simp_all add: binary_search_def r_def Let_def)
    with r(1) have lt: "r < length xs" by simp
    with r(3) have "v \<le> xs ! r" by simp
    with \<open>\<not> v < xs ! r\<close> have "xs ! r = v" by simp
    with lt have "r < length xs" "xs ! r = v" by simp_all
    then show "v \<in> set xs"
      using nth_mem by blast
  next
    assume "v \<in> set xs"
    then obtain i where i: "i < length xs" "xs ! i = v"
      by (auto simp: in_set_conv_nth)
    have "r \<le> i"
    proof (rule ccontr)
      assume "\<not> r \<le> i"
      then have "xs ! i < v" using r(2) by simp
      with i show False by simp
    qed
    then have "r < length xs" using i by simp
    moreover have "xs ! r \<le> xs ! i"
      using assms \<open>r \<le> i\<close> i(1) by (simp add: sorted_iff_nth_mono)
    ultimately show "binary_search xs v"
      using i by (simp add: binary_search_def r_def [symmetric] Let_def)
  qed
qed

subsection \<open>What makeLive changes\<close>

lemma makeLive_foreach_Cons_Inr:
  "makeLive_foreach E (t # ts) s = Inr s'' \<longleftrightarrow>
     (\<exists>s'. makeLive E t s = Inr s' \<and> makeLive_foreach E ts s' = Inr s'')"
  by (simp split: sum.splits)

lemma makeLive_deadJumps_aux:
  shows "\<forall>s'. makeLive E t s = Inr s' \<longrightarrow> deadJumps s' = deadJumps s"
    and "\<forall>s'. makeLive_foreach E ts s = Inr s' \<longrightarrow> deadJumps s' = deadJumps s"
proof (induction t s and ts s rule: makeLive_induct [where E = E])
  case (makeLive t s)
  show ?case
  proof (intro allI impI)
    fix s' assume run: "makeLive E t s = Inr s'"
    then have nz: "t \<noteq> 0"
      by (auto simp: makeLive_eq [of E t s] split: if_splits)
    show "deadJumps s' = deadJumps s"
    proof (cases "t \<in> liveTerms s")
      case True
      with run nz show ?thesis by (simp add: makeLive_eq [of E t s])
    next
      case False
      show ?thesis
      proof (cases "warnsAt E t")
        case True
        with run nz False show ?thesis
          by (auto simp: makeLive_eq [of E t s] ncWarning_def)
      next
        case nw: False
        with run nz False
        have "makeLive_foreach E (propagated E t) (s\<lparr>liveTerms := insert t (liveTerms s)\<rparr>) = Inr s'"
          by (simp add: makeLive_eq [of E t s])
        with makeLive.IH [OF nz False nw] show ?thesis by auto
      qed
    qed
  qed
next
  case (Nil s)
  show ?case by simp
next
  case (Cons t ts s)
  show ?case
  proof (intro allI impI)
    fix s'' assume "makeLive_foreach E (t # ts) s = Inr s''"
    then obtain s' where 1: "makeLive E t s = Inr s'" and 2: "makeLive_foreach E ts s' = Inr s''"
      unfolding makeLive_foreach_Cons_Inr by blast
    from Cons.IH(1) 1 have "deadJumps s' = deadJumps s" by blast
    moreover from Cons.IH(2) [OF 1] 2 have "deadJumps s'' = deadJumps s'" by blast
    ultimately show "deadJumps s'' = deadJumps s" by simp
  qed
qed

lemma makeLive_deadJumps:
  "makeLive E t s = Inr s' \<Longrightarrow> deadJumps s' = deadJumps s"
  using makeLive_deadJumps_aux(1) by blast

lemma makeLive_live:
  assumes "makeLive E t s = Inr s'"
  shows "t \<in> liveTerms s'"
proof (cases "t \<in> liveTerms s")
  case True
  with assms makeLive_grows show ?thesis by blast
next
  case False
  show ?thesis
  proof (cases "warnsAt E t")
    case True
    with assms False show ?thesis
      by (auto simp: makeLive_eq [of E t s] ncWarning_def split: if_splits)
  next
    case nw: False
    with assms False have "makeLive_foreach E (propagated E t) (s\<lparr>liveTerms := insert t (liveTerms s)\<rparr>) = Inr s'"
      by (auto simp: makeLive_eq [of E t s] split: if_splits)
    from makeLive_foreach_grows [OF this] show ?thesis by simp
  qed
qed

lemma closedExcept_insert:
  assumes "closedExcept E W L"
  shows "closedExcept E (insert t W) (insert t L)"
  using assms unfolding closedExcept_def by blast

lemma closedExcept_done:
  assumes "closedExcept E (insert t W) L" and "set (propagated E t) \<subseteq> L"
  shows "closedExcept E W L"
  using assms unfolding closedExcept_def by blast

lemma makeLive_closedExcept_aux:
  shows "\<forall>W s'. makeLive E t s = Inr s' \<longrightarrow> closedExcept E W (liveTerms s) \<longrightarrow>
           closedExcept E W (liveTerms s')"
    and "\<forall>W s'. makeLive_foreach E ts s = Inr s' \<longrightarrow> closedExcept E W (liveTerms s) \<longrightarrow>
           closedExcept E W (liveTerms s') \<and> set ts \<subseteq> liveTerms s'"
proof (induction t s and ts s rule: makeLive_induct [where E = E])
  case (makeLive t s)
  show ?case
  proof (intro allI impI)
    fix W s'
    assume run: "makeLive E t s = Inr s'" and cl: "closedExcept E W (liveTerms s)"
    from run have nz: "t \<noteq> 0"
      by (auto simp: makeLive_eq [of E t s] split: if_splits)
    show "closedExcept E W (liveTerms s')"
    proof (cases "t \<in> liveTerms s")
      case True
      with run nz cl show ?thesis by (simp add: makeLive_eq [of E t s])
    next
      case False
      let ?s1 = "s\<lparr>liveTerms := insert t (liveTerms s)\<rparr>"
      have cl1: "closedExcept E (insert t W) (liveTerms ?s1)"
        using closedExcept_insert [OF cl] by simp
      show ?thesis
      proof (cases "warnsAt E t")
        case True
        then have "propagated E t = []"
          by (auto simp: warnsAt_def propagated_def split: term_node.splits)
        moreover from run nz False True have "liveTerms s' = insert t (liveTerms s)"
          by (auto simp: makeLive_eq [of E t s] ncWarning_def)
        ultimately show ?thesis
          using closedExcept_done [of E t W "insert t (liveTerms s)"] cl1 by simp
      next
        case nw: False
        with run nz False have fe: "makeLive_foreach E (propagated E t) ?s1 = Inr s'"
          by (simp add: makeLive_eq [of E t s])
        from makeLive.IH [OF nz False nw] fe cl1
        have "closedExcept E (insert t W) (liveTerms s')" "set (propagated E t) \<subseteq> liveTerms s'"
          by blast+
        then show ?thesis by (rule closedExcept_done)
      qed
    qed
  qed
next
  case (Nil s)
  show ?case by simp
next
  case (Cons t ts s)
  show ?case
  proof (intro allI impI)
    fix W s''
    assume run: "makeLive_foreach E (t # ts) s = Inr s''" and cl: "closedExcept E W (liveTerms s)"
    from run [unfolded makeLive_foreach_Cons_Inr]
    obtain s' where 1: "makeLive E t s = Inr s'" and 2: "makeLive_foreach E ts s' = Inr s''"
      by blast
    from Cons.IH(1) 1 cl have cl': "closedExcept E W (liveTerms s')" by blast
    from Cons.IH(2) [OF 1] 2 cl' have *: "closedExcept E W (liveTerms s'')" "set ts \<subseteq> liveTerms s''"
      by blast+
    have "t \<in> liveTerms s''"
      using makeLive_live [OF 1] makeLive_foreach_grows [OF 2] by blast
    with * show "closedExcept E W (liveTerms s'') \<and> set (t # ts) \<subseteq> liveTerms s''"
      by simp
  qed
qed

lemma makeLive_closed:
  assumes "makeLive E t s = Inr s'" and "closed E (liveTerms s)"
  shows "closed E (liveTerms s')"
  using makeLive_closedExcept_aux(1) [of E t s, rule_format, of s' "{}"] assms
  by (simp add: closed_def closedExcept_def)

subsection \<open>Loops and seeding steps\<close>

lemma advances_refl: "advances s s"
  by (simp add: advances_def)

lemma advances_trans: "advances s s' \<Longrightarrow> advances s' s'' \<Longrightarrow> advances s s''"
  by (auto simp: advances_def)

lemma advances_ncWarning: "advances s (ncWarning msg s)"
  by (simp add: advances_def ncWarning_def)

lemma makeLive_advances: "makeLive E t s = Inr s' \<Longrightarrow> advances s s'"
  by (simp add: advances_def makeLive_grows makeLive_deadJumps)

lemma andThen_Inr:
  "andThen r k = Inr s' \<longleftrightarrow> (\<exists>s. r = Inr s \<and> k s = Inr s')"
  by (cases r) (simp_all add: andThen_def)

lemma foreach_Cons_Inr:
  "foreach body (x # xs) s = Inr s'' \<longleftrightarrow>
     (\<exists>s'. body x s = Inr s' \<and> foreach body xs s' = Inr s'')"
  by (simp split: sum.splits)

lemma foreach_invariant:
  assumes "\<And>x s s'. I s \<Longrightarrow> body x s = Inr s' \<Longrightarrow> I s'"
    and "foreach body xs s = Inr s'" and "I s"
  shows "I s'"
  using assms(2,3)
proof (induction xs arbitrary: s)
  case Nil
  then show ?case by simp
next
  case (Cons x xs)
  from Cons.prems(1) obtain s1 where 1: "body x s = Inr s1" and 2: "foreach body xs s1 = Inr s'"
    unfolding foreach_Cons_Inr by blast
  from assms(1) [OF Cons.prems(2) 1] have "I s1" .
  with Cons.IH 2 show ?case by blast
qed

lemma foreach_advances:
  assumes "\<And>x s s'. body x s = Inr s' \<Longrightarrow> advances s s'"
    and "foreach body xs s = Inr s'"
  shows "advances s s'"
proof -
  have "advances s s'"
    by (rule foreach_invariant [where I = "advances s" and body = body, OF _ assms(2)])
      (auto intro: advances_trans assms(1) advances_refl)
  then show ?thesis .
qed

lemma foreach_member:
  assumes step: "\<And>x s s'. body x s = Inr s' \<Longrightarrow> advances s s'"
    and run: "foreach body xs s = Inr s'" and mem: "x \<in> set xs"
  shows "\<exists>sa sb. advances s sa \<and> body x sa = Inr sb \<and> advances sb s'"
  using run mem
proof (induction xs arbitrary: s)
  case Nil
  then show ?case by simp
next
  case (Cons y ys)
  from Cons.prems(1) obtain s1 where 1: "body y s = Inr s1" and 2: "foreach body ys s1 = Inr s'"
    unfolding foreach_Cons_Inr by blast
  show ?case
  proof (cases "x = y")
    case True
    have "advances s1 s'" using step 2 by (rule foreach_advances)
    with 1 True show ?thesis using advances_refl by blast
  next
    case False
    with Cons.prems(2) have "x \<in> set ys" by simp
    from Cons.IH [OF 2 this] obtain sa sb
      where "advances s1 sa" "body x sa = Inr sb" "advances sb s'" by blast
    moreover have "advances s s1" using 1 by (rule step)
    ultimately show ?thesis using advances_trans by blast
  qed
qed

lemma foreach_makeLive:
  assumes "foreach (\<lambda>x. makeLive E (g x)) xs s = Inr s'"
  shows "advances s s' \<and> (\<forall>x\<in>set xs. g x \<in> liveTerms s')"
proof -
  have adv: "advances s s'"
    using _ assms by (rule foreach_advances) (rule makeLive_advances)
  have "g x \<in> liveTerms s'" if "x \<in> set xs" for x
  proof -
    from foreach_member [where body = "\<lambda>x. makeLive E (g x)", OF _ assms that]
    obtain sa sb where "makeLive E (g x) sa = Inr sb" "advances sb s'"
      using makeLive_advances by blast
    then show ?thesis
      using makeLive_live [of E "g x" sa sb] by (auto simp: advances_def)
  qed
  with adv show ?thesis by blast
qed

lemma foreach_makeLive_closed:
  assumes "foreach (\<lambda>x. makeLive E (g x)) xs s = Inr s'" and "closed E (liveTerms s)"
  shows "closed E (liveTerms s')"
  by (rule foreach_invariant [where I = "\<lambda>s. closed E (liveTerms s)", OF _ assms])
    (rule makeLive_closed)

text \<open>An optional term: seeded when the pointer is not null.\<close>

lemma optional_makeLive:
  assumes "(if c \<noteq> 0 then makeLive E c s else Inr s) = Inr s'"
  shows "advances s s' \<and> (c \<noteq> 0 \<longrightarrow> c \<in> liveTerms s')
       \<and> (closed E (liveTerms s) \<longrightarrow> closed E (liveTerms s'))"
  using assms makeLive_advances [of E c s s'] makeLive_live [of E c s s']
    makeLive_closed [of E c s s']
  by (auto simp: advances_refl split: if_splits)

lemma jump_seeding:
  assumes stmt: "statements E p = Jump c th el"
    and run: "computeLiveness_statement E p s = Inr s'"
    and srt: "sorted (deadJumps s)"
  shows "(p \<in> set (deadJumps s) \<longrightarrow> s' = s)
       \<and> (p \<notin> set (deadJumps s) \<longrightarrow>
            (c \<noteq> 0 \<longrightarrow> c \<in> liveTerms s')
          \<and> (address th \<noteq> 0 \<longrightarrow> address th \<in> liveTerms s')
          \<and> (address el \<noteq> 0 \<longrightarrow> address el \<in> liveTerms s'))"
proof (cases "p \<in> set (deadJumps s)")
  case True
  with stmt run srt show ?thesis
    by (simp add: computeLiveness_statement_def binary_search_iff)
next
  case False
  with stmt run srt obtain s1 s2 where
    1: "(if c \<noteq> 0 then makeLive E c s else Inr s) = Inr s1" and
    2: "(if address th \<noteq> 0 then makeLive E (address th) s1 else Inr s1) = Inr s2" and
    3: "(if address el \<noteq> 0 then makeLive E (address el) s2 else Inr s2) = Inr s'"
    by (auto simp: computeLiveness_statement_def binary_search_iff andThen_Inr)
  from optional_makeLive [OF 1] optional_makeLive [OF 2] optional_makeLive [OF 3] False
  show ?thesis
    by (auto simp: advances_def)
qed

lemma call_seeding:
  assumes stmt: "statements E p = Call tg"
    and run: "computeLiveness_statement E p s = Inr s'"
  shows "tg \<in> liveTerms s'
       \<and> (\<forall>calleeId sig callHook.
             getCalleeId_call E p = Some calleeId \<longrightarrow> getSignature E calleeId = Some sig \<longrightarrow>
             getCallHook E p = Some callHook \<longrightarrow>
             (\<forall>memoryLocation\<in>set (arguments sig). callHook memoryLocation \<in> liveTerms s'))"
proof -
  from stmt run obtain s1 where
    1: "makeLive E tg s = Inr s1" and
    2: "(case getCalleeId_call E p of
          None \<Rightarrow> Inr s1
        | Some calleeId \<Rightarrow>
            (case getSignature E calleeId of
               None \<Rightarrow> Inr s1
             | Some sig \<Rightarrow>
                 (case getCallHook E p of
                    None \<Rightarrow> Inr s1
                  | Some callHook \<Rightarrow>
                      foreach (\<lambda>memoryLocation. makeLive E (callHook memoryLocation))
                        (arguments sig) s1))) = Inr s'"
    by (auto simp: computeLiveness_statement_def andThen_Inr)
  have tg: "tg \<in> liveTerms s1" using 1 by (rule makeLive_live)
  have adv: "advances s1 s'"
    using 2 foreach_makeLive [of E _ _ s1 s']
    by (auto simp: advances_refl split: option.splits)
  have args: "callHook memoryLocation \<in> liveTerms s'"
    if "getCalleeId_call E p = Some calleeId" "getSignature E calleeId = Some sig"
      "getCallHook E p = Some callHook" "memoryLocation \<in> set (arguments sig)"
    for calleeId sig callHook memoryLocation
  proof -
    from 2 that(1-3)
    have "foreach (\<lambda>memoryLocation. makeLive E (callHook memoryLocation)) (arguments sig) s1 = Inr s'"
      by simp
    from foreach_makeLive [OF this] that(4) show ?thesis by blast
  qed
  from tg adv args show ?thesis
    by (auto simp: advances_def)
qed

lemma computeLiveness_statement_advances:
  assumes "computeLiveness_statement E p s = Inr s'"
  shows "advances s s'"
proof (cases "statements E p")
  case (Jump c th el)
  show ?thesis
  proof (cases "binary_search (deadJumps s) p")
    case True
    with Jump assms show ?thesis
      by (simp add: computeLiveness_statement_def advances_refl)
  next
    case False
    with Jump assms obtain s1 s2 where
      1: "(if c \<noteq> 0 then makeLive E c s else Inr s) = Inr s1" and
      2: "(if address th \<noteq> 0 then makeLive E (address th) s1 else Inr s1) = Inr s2" and
      3: "(if address el \<noteq> 0 then makeLive E (address el) s2 else Inr s2) = Inr s'"
      by (auto simp: computeLiveness_statement_def andThen_Inr)
    from optional_makeLive [OF 1] optional_makeLive [OF 2] optional_makeLive [OF 3]
    show ?thesis using advances_trans by blast
  qed
next
  case (Call tg)
  with assms obtain s1 where
    1: "makeLive E tg s = Inr s1" and
    2: "(case getCalleeId_call E p of
          None \<Rightarrow> Inr s1
        | Some calleeId \<Rightarrow>
            (case getSignature E calleeId of
               None \<Rightarrow> Inr s1
             | Some sig \<Rightarrow>
                 (case getCallHook E p of
                    None \<Rightarrow> Inr s1
                  | Some callHook \<Rightarrow>
                      foreach (\<lambda>memoryLocation. makeLive E (callHook memoryLocation))
                        (arguments sig) s1))) = Inr s'"
    by (auto simp: computeLiveness_statement_def andThen_Inr)
  have "advances s1 s'"
    using 2 foreach_makeLive [of E _ _ s1 s']
    by (auto simp: advances_refl split: option.splits)
  with makeLive_advances [OF 1] show ?thesis by (rule advances_trans)
qed (use assms in \<open>auto simp: computeLiveness_statement_def advances_refl advances_ncWarning\<close>)

lemma computeLiveness_statement_closed:
  assumes "computeLiveness_statement E p s = Inr s'" and "closed E (liveTerms s)"
  shows "closed E (liveTerms s')"
proof (cases "statements E p")
  case (Jump c th el)
  show ?thesis
  proof (cases "binary_search (deadJumps s) p")
    case True
    with Jump assms show ?thesis
      by (simp add: computeLiveness_statement_def)
  next
    case False
    with Jump assms obtain s1 s2 where
      1: "(if c \<noteq> 0 then makeLive E c s else Inr s) = Inr s1" and
      2: "(if address th \<noteq> 0 then makeLive E (address th) s1 else Inr s1) = Inr s2" and
      3: "(if address el \<noteq> 0 then makeLive E (address el) s2 else Inr s2) = Inr s'"
      by (auto simp: computeLiveness_statement_def andThen_Inr)
    from optional_makeLive [OF 1] optional_makeLive [OF 2] optional_makeLive [OF 3] assms(2)
    show ?thesis by blast
  qed
next
  case (Call tg)
  with assms obtain s1 where
    1: "makeLive E tg s = Inr s1" and
    2: "(case getCalleeId_call E p of
          None \<Rightarrow> Inr s1
        | Some calleeId \<Rightarrow>
            (case getSignature E calleeId of
               None \<Rightarrow> Inr s1
             | Some sig \<Rightarrow>
                 (case getCallHook E p of
                    None \<Rightarrow> Inr s1
                  | Some callHook \<Rightarrow>
                      foreach (\<lambda>memoryLocation. makeLive E (callHook memoryLocation))
                        (arguments sig) s1))) = Inr s'"
    by (auto simp: computeLiveness_statement_def andThen_Inr)
  have "closed E (liveTerms s1)" using 1 assms(2) by (rule makeLive_closed)
  then show ?thesis
    using 2 foreach_makeLive_closed [of E _ _ s1 s']
    by (auto split: option.splits)
qed (use assms in \<open>auto simp: computeLiveness_statement_def ncWarning_def\<close>)

lemma computeLiveness_term_eq:
  "computeLiveness_term E t s =
     (if (\<exists>ml. node (terms E t) = MemoryLocationAccess ml \<and> isWrite (terms E t)
              \<and> isGlobalMemory E ml)
       \<or> (\<exists>a. node (terms E t) = Dereference a \<and> isWrite (terms E t)
              \<and> (case getMemoryLocation E t of None \<Rightarrow> True | Some ml \<Rightarrow> isGlobalMemory E ml))
      then makeLive E t s
      else if (\<exists>k. node (terms E t) = UnsupportedTerm k)
      then Inr (ncWarning ''Was called for unsupported kind of term.'' s)
      else Inr s)"
  by (cases "node (terms E t)")
     (auto simp: computeLiveness_term_def split: option.splits)

lemma computeLiveness_term_advances:
  assumes "computeLiveness_term E t s = Inr s'"
  shows "advances s s'"
  using assms makeLive_advances [of E t s s']
  by (auto simp: computeLiveness_term_eq [of E t s] advances_refl advances_ncWarning
      split: if_splits)

lemma computeLiveness_term_closed:
  assumes "computeLiveness_term E t s = Inr s'" and "closed E (liveTerms s)"
  shows "closed E (liveTerms s')"
  using assms makeLive_closed [of E t s s']
  by (auto simp: computeLiveness_term_eq [of E t s] ncWarning_def split: if_splits)

lemma collectDeadJumps_eq:
  "collectDeadJumps ns acc =
     acc @ concat (map (\<lambda>n. case n of
                              BasicNode b \<Rightarrow> []
                            | Region r \<Rightarrow>
                                (case r of
                                   Switch bc \<Rightarrow>
                                     (case bc of None \<Rightarrow> [] | Some b \<Rightarrow> [getJump (basicBlock b)])
                                 | OtherRegion k \<Rightarrow> [])) ns)"
  by (induction ns arbitrary: acc)
     (auto split: cflow_node.splits region.splits option.splits)

lemma set_collectDeadJumps:
  "set (collectDeadJumps ns []) =
     {getJump (basicBlock b) | b. Region (Switch (Some b)) \<in> set ns}"
proof -
  have "set (collectDeadJumps ns []) =
      (\<Union>n\<in>set ns. set (case n of
                              BasicNode b \<Rightarrow> []
                            | Region r \<Rightarrow>
                                (case r of
                                   Switch bc \<Rightarrow>
                                     (case bc of None \<Rightarrow> [] | Some b \<Rightarrow> [getJump (basicBlock b)])
                                 | OtherRegion k \<Rightarrow> [])))"
    by (simp add: collectDeadJumps_eq)
  also have "\<dots> = {getJump (basicBlock b) | b. Region (Switch (Some b)) \<in> set ns}"
    by (auto split: cflow_node.splits region.splits option.splits)
  finally show ?thesis .
qed

text \<open>The three stages of \<open>analyze\<close>.\<close>

lemma analyze_stages:
  assumes "analyze E s0 = Inr s"
  obtains s2 s3 where
    "foreach (computeLiveness_statement E) (census_statements E)
       (s0\<lparr>deadJumps := sort (collectDeadJumps (nodes E) [])\<rparr>) = Inr s2"
    "foreach (computeLiveness_term E) (census_terms E) s2 = Inr s3"
    "(case getCalleeId_function E (func E) of
          None \<Rightarrow> Inr s3
        | Some calleeId \<Rightarrow>
            (case getSignature E calleeId of
               None \<Rightarrow> Inr s3
             | Some sig \<Rightarrow>
                 (case returnValue sig of
                    None \<Rightarrow> Inr s3
                  | Some rv \<Rightarrow>
                      foreach (\<lambda>ret s.
                          case getReturnHook E (func E) ret of
                            None \<Rightarrow> Inr s
                          | Some returnHook \<Rightarrow> makeLive E (returnHook rv) s)
                        (getReturns E) s3))) = Inr s"
  using assms by (auto simp: analyze_def andThen_Inr Let_def)

lemma return_step_advances:
  assumes "(case getReturnHook E f ret of
              None \<Rightarrow> Inr s
            | Some returnHook \<Rightarrow> makeLive E (returnHook rv) s) = Inr s'"
  shows "advances s s'"
  using assms makeLive_advances [of E _ s s']
  by (auto simp: advances_refl split: option.splits)

lemma return_step_closed:
  assumes "(case getReturnHook E f ret of
              None \<Rightarrow> Inr s
            | Some returnHook \<Rightarrow> makeLive E (returnHook rv) s) = Inr s'"
    and "closed E (liveTerms s)"
  shows "closed E (liveTerms s')"
  using assms makeLive_closed [of E _ s s']
  by (auto split: option.splits)

lemma return_stage:
  assumes "(case getCalleeId_function E (func E) of
          None \<Rightarrow> Inr s3
        | Some calleeId \<Rightarrow>
            (case getSignature E calleeId of
               None \<Rightarrow> Inr s3
             | Some sig \<Rightarrow>
                 (case returnValue sig of
                    None \<Rightarrow> Inr s3
                  | Some rv \<Rightarrow>
                      foreach (\<lambda>ret s.
                          case getReturnHook E (func E) ret of
                            None \<Rightarrow> Inr s
                          | Some returnHook \<Rightarrow> makeLive E (returnHook rv) s)
                        (getReturns E) s3))) = Inr s"
  shows "advances s3 s"
    and "closed E (liveTerms s3) \<Longrightarrow> closed E (liveTerms s)"
    and "\<lbrakk>getCalleeId_function E (func E) = Some calleeId; getSignature E calleeId = Some sig;
          returnValue sig = Some rv; ret \<in> set (getReturns E);
          getReturnHook E (func E) ret = Some returnHook\<rbrakk>
         \<Longrightarrow> returnHook rv \<in> liveTerms s"
proof -
  let ?body = "\<lambda>rv ret s. case getReturnHook E (func E) ret of
                            None \<Rightarrow> Inr s
                          | Some returnHook \<Rightarrow> makeLive E (returnHook rv) s"
  have adv: "advances a b" if "foreach (?body rv) xs a = Inr b" for rv xs a b
    using _ that by (rule foreach_advances) (rule return_step_advances)
  show "advances s3 s"
    using assms adv by (auto simp: advances_refl split: option.splits)
  have cl: "closed E (liveTerms b)"
    if "foreach (?body rv) xs a = Inr b" "closed E (liveTerms a)" for rv xs a b
    by (rule foreach_invariant [where I = "\<lambda>s. closed E (liveTerms s)", OF _ that])
      (rule return_step_closed)
  show "closed E (liveTerms s3) \<Longrightarrow> closed E (liveTerms s)"
    using assms cl by (auto split: option.splits)
  show "returnHook rv \<in> liveTerms s"
    if h: "getCalleeId_function E (func E) = Some calleeId" "getSignature E calleeId = Some sig"
      "returnValue sig = Some rv" "ret \<in> set (getReturns E)"
      "getReturnHook E (func E) ret = Some returnHook"
  proof -
    from assms h(1-3) have run: "foreach (?body rv) (getReturns E) s3 = Inr s" by simp
    have "\<exists>sa sb. advances s3 sa \<and> ?body rv ret sa = Inr sb \<and> advances sb s"
      by (rule foreach_member [where body = "?body rv", OF _ run h(4)])
        (rule return_step_advances)
    then obtain sa sb where "?body rv ret sa = Inr sb" "advances sb s" by blast
    with h(5) have "makeLive E (returnHook rv) sa = Inr sb" by simp
    from makeLive_live [OF this] \<open>advances sb s\<close> show ?thesis
      by (auto simp: advances_def)
  qed
qed

lemma analyze_deadJumps:
  assumes "analyze E s0 = Inr s"
  shows "deadJumps s = sort (collectDeadJumps (nodes E) [])"
proof -
  from assms obtain s2 s3 where
    1: "foreach (computeLiveness_statement E) (census_statements E)
       (s0\<lparr>deadJumps := sort (collectDeadJumps (nodes E) [])\<rparr>) = Inr s2" and
    2: "foreach (computeLiveness_term E) (census_terms E) s2 = Inr s3" and
    3: "(case getCalleeId_function E (func E) of
          None \<Rightarrow> Inr s3
        | Some calleeId \<Rightarrow>
            (case getSignature E calleeId of
               None \<Rightarrow> Inr s3
             | Some sig \<Rightarrow>
                 (case returnValue sig of
                    None \<Rightarrow> Inr s3
                  | Some rv \<Rightarrow>
                      foreach (\<lambda>ret s.
                          case getReturnHook E (func E) ret of
                            None \<Rightarrow> Inr s
                          | Some returnHook \<Rightarrow> makeLive E (returnHook rv) s)
                        (getReturns E) s3))) = Inr s"
    by (rule analyze_stages)
  have "advances (s0\<lparr>deadJumps := sort (collectDeadJumps (nodes E) [])\<rparr>) s2"
    using _ 1 by (rule foreach_advances) (rule computeLiveness_statement_advances)
  moreover have "advances s2 s3"
    using _ 2 by (rule foreach_advances) (rule computeLiveness_term_advances)
  moreover have "advances s3 s" using 3 by (rule return_stage(1))
  ultimately show ?thesis by (simp add: advances_def)
qed

lemma analyze_closed:
  assumes "analyze E s0 = Inr s" and "closed E (liveTerms s0)"
  shows "closed E (liveTerms s)"
proof -
  from assms(1) obtain s2 s3 where
    1: "foreach (computeLiveness_statement E) (census_statements E)
       (s0\<lparr>deadJumps := sort (collectDeadJumps (nodes E) [])\<rparr>) = Inr s2" and
    2: "foreach (computeLiveness_term E) (census_terms E) s2 = Inr s3" and
    3: "(case getCalleeId_function E (func E) of
          None \<Rightarrow> Inr s3
        | Some calleeId \<Rightarrow>
            (case getSignature E calleeId of
               None \<Rightarrow> Inr s3
             | Some sig \<Rightarrow>
                 (case returnValue sig of
                    None \<Rightarrow> Inr s3
                  | Some rv \<Rightarrow>
                      foreach (\<lambda>ret s.
                          case getReturnHook E (func E) ret of
                            None \<Rightarrow> Inr s
                          | Some returnHook \<Rightarrow> makeLive E (returnHook rv) s)
                        (getReturns E) s3))) = Inr s"
    by (rule analyze_stages)
  have "closed E (liveTerms s2)"
    by (rule foreach_invariant [where I = "\<lambda>s. closed E (liveTerms s)", OF _ 1])
      (use assms(2) in \<open>auto intro: computeLiveness_statement_closed\<close>)
  then have "closed E (liveTerms s3)"
    by (rule foreach_invariant [where I = "\<lambda>s. closed E (liveTerms s)", OF _ 2, rotated])
      (rule computeLiveness_term_closed)
  then show ?thesis using return_stage(2) [OF 3] by blast
qed

text \<open>What the seeding of one census statement or term means for the final state.\<close>

lemma analyze_statement:
  assumes "analyze E s0 = Inr s" and "p \<in> set (census_statements E)"
  obtains sa sb where "computeLiveness_statement E p sa = Inr sb"
    "deadJumps sa = deadJumps s" "liveTerms sb \<subseteq> liveTerms s"
proof -
  from assms(1) obtain s2 s3 where
    1: "foreach (computeLiveness_statement E) (census_statements E)
       (s0\<lparr>deadJumps := sort (collectDeadJumps (nodes E) [])\<rparr>) = Inr s2" and
    2: "foreach (computeLiveness_term E) (census_terms E) s2 = Inr s3" and
    3: "(case getCalleeId_function E (func E) of
          None \<Rightarrow> Inr s3
        | Some calleeId \<Rightarrow>
            (case getSignature E calleeId of
               None \<Rightarrow> Inr s3
             | Some sig \<Rightarrow>
                 (case returnValue sig of
                    None \<Rightarrow> Inr s3
                  | Some rv \<Rightarrow>
                      foreach (\<lambda>ret s.
                          case getReturnHook E (func E) ret of
                            None \<Rightarrow> Inr s
                          | Some returnHook \<Rightarrow> makeLive E (returnHook rv) s)
                        (getReturns E) s3))) = Inr s"
    by (rule analyze_stages)
  have "\<exists>sa sb. advances (s0\<lparr>deadJumps := sort (collectDeadJumps (nodes E) [])\<rparr>) sa
      \<and> computeLiveness_statement E p sa = Inr sb \<and> advances sb s2"
    by (rule foreach_member [where body = "computeLiveness_statement E", OF _ 1 assms(2)])
      (rule computeLiveness_statement_advances)
  then obtain sa sb where a: "advances (s0\<lparr>deadJumps := sort (collectDeadJumps (nodes E) [])\<rparr>) sa"
    and b: "computeLiveness_statement E p sa = Inr sb" and c: "advances sb s2"
    by blast
  have "advances s2 s3"
    using _ 2 by (rule foreach_advances) (rule computeLiveness_term_advances)
  moreover have "advances s3 s" using 3 by (rule return_stage(1))
  ultimately have "liveTerms sb \<subseteq> liveTerms s"
    using c by (auto simp: advances_def)
  moreover have "deadJumps sa = deadJumps s"
    using a analyze_deadJumps [OF assms(1)] by (simp add: advances_def)
  ultimately show ?thesis using b that by blast
qed

lemma analyze_term:
  assumes "analyze E s0 = Inr s" and "t \<in> set (census_terms E)"
  obtains sa sb where "computeLiveness_term E t sa = Inr sb" "liveTerms sb \<subseteq> liveTerms s"
proof -
  from assms(1) obtain s2 s3 where
    1: "foreach (computeLiveness_statement E) (census_statements E)
       (s0\<lparr>deadJumps := sort (collectDeadJumps (nodes E) [])\<rparr>) = Inr s2" and
    2: "foreach (computeLiveness_term E) (census_terms E) s2 = Inr s3" and
    3: "(case getCalleeId_function E (func E) of
          None \<Rightarrow> Inr s3
        | Some calleeId \<Rightarrow>
            (case getSignature E calleeId of
               None \<Rightarrow> Inr s3
             | Some sig \<Rightarrow>
                 (case returnValue sig of
                    None \<Rightarrow> Inr s3
                  | Some rv \<Rightarrow>
                      foreach (\<lambda>ret s.
                          case getReturnHook E (func E) ret of
                            None \<Rightarrow> Inr s
                          | Some returnHook \<Rightarrow> makeLive E (returnHook rv) s)
                        (getReturns E) s3))) = Inr s"
    by (rule analyze_stages)
  have "\<exists>sa sb. advances s2 sa \<and> computeLiveness_term E t sa = Inr sb \<and> advances sb s3"
    by (rule foreach_member [where body = "computeLiveness_term E", OF _ 2 assms(2)])
      (rule computeLiveness_term_advances)
  then obtain sa sb where b: "computeLiveness_term E t sa = Inr sb" and c: "advances sb s3"
    by blast
  have "advances s3 s" using 3 by (rule return_stage(1))
  with c have "liveTerms sb \<subseteq> liveTerms s"
    by (auto simp: advances_def)
  with b that show ?thesis by blast
qed

section \<open>Claims about the liveness analysis\<close>

lemma demo_run: "analyze demo emptyLiveness = Inr demo_result"
  by code_simp


text \<open>
  C5. For every call statement of the census the call target is live after the analysis,
  and when the call has a callee id with a signature and a call hook, the hook's argument
  term of every argument location of the signature is live. When the function's own callee
  id has a signature with a return value, the return-value term of every return statement
  that has a return hook is live.
\<close>

theorem call_and_return_seeding:
  assumes "analyze E s0 = Inr s"
  shows "(\<forall>p tg. p \<in> set (census_statements E) \<longrightarrow> statements E p = Call tg \<longrightarrow>
            tg \<in> liveTerms s
          \<and> (\<forall>calleeId sig callHook.
                 getCalleeId_call E p = Some calleeId \<longrightarrow> getSignature E calleeId = Some sig \<longrightarrow>
                 getCallHook E p = Some callHook \<longrightarrow>
                 (\<forall>memoryLocation\<in>set (arguments sig). callHook memoryLocation \<in> liveTerms s)))
       \<and> (\<forall>calleeId sig rv ret returnHook.
             getCalleeId_function E (func E) = Some calleeId \<longrightarrow>
             getSignature E calleeId = Some sig \<longrightarrow> returnValue sig = Some rv \<longrightarrow>
             ret \<in> set (getReturns E) \<longrightarrow> getReturnHook E (func E) ret = Some returnHook \<longrightarrow>
             returnHook rv \<in> liveTerms s)"
proof (intro conjI allI impI)
  fix p tg
  assume p: "p \<in> set (census_statements E)" and call: "statements E p = Call tg"
  from assms p obtain sa sb where
    step: "computeLiveness_statement E p sa = Inr sb" and sub: "liveTerms sb \<subseteq> liveTerms s"
    by (rule analyze_statement)
  from call_seeding [OF call step] sub show "tg \<in> liveTerms s" by blast
  fix calleeId sig callHook
  assume "getCalleeId_call E p = Some calleeId" "getSignature E calleeId = Some sig"
    "getCallHook E p = Some callHook"
  with call_seeding [OF call step] sub
  show "\<forall>memoryLocation\<in>set (arguments sig). callHook memoryLocation \<in> liveTerms s"
    by blast
next
  fix calleeId sig rv ret returnHook
  assume h: "getCalleeId_function E (func E) = Some calleeId" "getSignature E calleeId = Some sig"
    "returnValue sig = Some rv" "ret \<in> set (getReturns E)"
    "getReturnHook E (func E) ret = Some returnHook"
  from assms obtain s2 s3 where
    "(case getCalleeId_function E (func E) of
          None \<Rightarrow> Inr s3
        | Some calleeId \<Rightarrow>
            (case getSignature E calleeId of
               None \<Rightarrow> Inr s3
             | Some sig \<Rightarrow>
                 (case returnValue sig of
                    None \<Rightarrow> Inr s3
                  | Some rv \<Rightarrow>
                      foreach (\<lambda>ret s.
                          case getReturnHook E (func E) ret of
                            None \<Rightarrow> Inr s
                          | Some returnHook \<Rightarrow> makeLive E (returnHook rv) s)
                        (getReturns E) s3))) = Inr s"
    by (rule analyze_stages)
  from return_stage(3) [OF this h] show "returnHook rv \<in> liveTerms s" .
qed

theorem call_and_return_seeding_witness:
  "analyze demo emptyLiveness = Inr demo_result
   \<and> 103 \<in> set (census_statements demo) \<and> statements demo 103 = Call 17
   \<and> 17 \<in> liveTerms demo_result
   \<and> getCalleeId_call demo 103 = Some 8
   \<and> (2, 200, 32) \<in> set (arguments (the (getSignature demo 8)))
   \<and> the (getCallHook demo 103) (2, 200, 32) \<in> liveTerms demo_result
   \<and> 104 \<in> set (getReturns demo)
   \<and> the (getReturnHook demo (func demo) 104) (3, 0, 32) \<in> liveTerms demo_result"
proof -
  note claim = call_and_return_seeding [OF demo_run]
  have call: "103 \<in> set (census_statements demo)" "statements demo 103 = Call 17"
    by (simp_all add: demo_def demo_statements_def)
  have hooks: "getCalleeId_call demo 103 = Some 8"
    "getSignature demo 8 = Some \<lparr>arguments = [(2, 200, 32)], returnValue = None\<rparr>"
    "getCallHook demo 103 = Some (\<lambda>ml. 18)"
    by (simp_all add: demo_def)
  have ret: "getCalleeId_function demo (func demo) = Some 7"
    "getSignature demo 7 = Some \<lparr>arguments = [], returnValue = Some (3, 0, 32)\<rparr>"
    "returnValue \<lparr>arguments = [], returnValue = Some (3, 0, 32)\<rparr> = Some (3, 0, 32)"
    "104 \<in> set (getReturns demo)"
    "getReturnHook demo (func demo) 104 = Some (\<lambda>ml. 21)"
    by (simp_all add: demo_def)
  from claim call have 1: "17 \<in> liveTerms demo_result" by blast
  from claim call hooks
  have 2: "\<forall>memoryLocation\<in>set (arguments \<lparr>arguments = [(2, 200, 32)], returnValue = None\<rparr>).
            (\<lambda>ml. 18) memoryLocation \<in> liveTerms demo_result"
    by blast
  from claim ret have 3: "(\<lambda>ml. 21) (3, 0, 32) \<in> liveTerms demo_result" by blast
  show ?thesis
    using demo_run call hooks ret 1 2 3 by simp
qed

text \<open>
  C6. After the analysis the dead-jump list holds exactly the terminating jumps of the
  bounds-check blocks of the switch regions of the region graph (as pointers: a block that
  does not end with a jump contributes the null pointer), and it is sorted by address.
  A jump statement of the census that is not in the list has its condition and the
  addresses of its two targets live, each when present; a jump that is in the list leaves
  the state as it is.
\<close>

theorem dead_jump_list_and_jump_seeding:
  assumes "analyze E s0 = Inr s"
  shows "set (deadJumps s) = {getJump (basicBlock b) | b. Region (Switch (Some b)) \<in> set (nodes E)}
       \<and> sorted (deadJumps s)
       \<and> (\<forall>p c th el. p \<in> set (census_statements E) \<longrightarrow> statements E p = Jump c th el \<longrightarrow>
             p \<notin> set (deadJumps s) \<longrightarrow>
               (c \<noteq> 0 \<longrightarrow> c \<in> liveTerms s)
             \<and> (address th \<noteq> 0 \<longrightarrow> address th \<in> liveTerms s)
             \<and> (address el \<noteq> 0 \<longrightarrow> address el \<in> liveTerms s))
       \<and> (\<forall>p c th el sa. statements E p = Jump c th el \<longrightarrow> p \<in> set (deadJumps s) \<longrightarrow>
             deadJumps sa = deadJumps s \<longrightarrow> computeLiveness_statement E p sa = Inr sa)"
proof (intro conjI allI impI)
  have dj: "deadJumps s = sort (collectDeadJumps (nodes E) [])"
    using assms by (rule analyze_deadJumps)
  show "set (deadJumps s) = {getJump (basicBlock b) | b. Region (Switch (Some b)) \<in> set (nodes E)}"
    by (simp add: dj set_collectDeadJumps)
  show srt: "sorted (deadJumps s)"
    by (simp add: dj)
  {
    fix p c th el
    assume p: "p \<in> set (census_statements E)" and j: "statements E p = Jump c th el"
      and nd: "p \<notin> set (deadJumps s)"
    from assms p obtain sa sb where
      step: "computeLiveness_statement E p sa = Inr sb" and d: "deadJumps sa = deadJumps s"
      and sub: "liveTerms sb \<subseteq> liveTerms s"
      by (rule analyze_statement)
    from jump_seeding [OF j step] srt d nd
    have *: "(c \<noteq> 0 \<longrightarrow> c \<in> liveTerms sb) \<and> (address th \<noteq> 0 \<longrightarrow> address th \<in> liveTerms sb)
           \<and> (address el \<noteq> 0 \<longrightarrow> address el \<in> liveTerms sb)"
      by simp
    { assume "c \<noteq> 0" with * sub show "c \<in> liveTerms s" by blast }
    { assume "address th \<noteq> 0" with * sub show "address th \<in> liveTerms s" by blast }
    { assume "address el \<noteq> 0" with * sub show "address el \<in> liveTerms s" by blast }
  }
  fix p c th el and sa :: liveness_state
  assume "statements E p = Jump c th el" "p \<in> set (deadJumps s)" "deadJumps sa = deadJumps s"
  with srt show "computeLiveness_statement E p sa = Inr sa"
    by (simp add: computeLiveness_statement_def binary_search_iff)
qed

theorem dead_jump_list_and_jump_seeding_witness:
  "analyze demo emptyLiveness = Inr demo_result
   \<and> set (deadJumps demo_result) = {101} \<and> sorted (deadJumps demo_result)
   \<and> statements demo 102 = Jump 15 (JumpTarget 16) (JumpTarget 0)
   \<and> 102 \<in> set (census_statements demo) \<and> 102 \<notin> set (deadJumps demo_result)
   \<and> 15 \<in> liveTerms demo_result \<and> 16 \<in> liveTerms demo_result
   \<and> statements demo 101 = Jump 12 (JumpTarget 22) (JumpTarget 0)
   \<and> 101 \<in> set (deadJumps demo_result)
   \<and> computeLiveness_statement demo 101 demo_result = Inr demo_result
   \<and> 22 \<notin> liveTerms demo_result"
proof -
  note claim = dead_jump_list_and_jump_seeding [OF demo_run]
  have j102: "102 \<in> set (census_statements demo)"
    "statements demo 102 = Jump 15 (JumpTarget 16) (JumpTarget 0)"
    "102 \<notin> set (deadJumps demo_result)"
    by (simp_all add: demo_def demo_statements_def demo_result_def)
  have j101: "statements demo 101 = Jump 12 (JumpTarget 22) (JumpTarget 0)"
    "101 \<in> set (deadJumps demo_result)"
    by (simp_all add: demo_def demo_statements_def demo_result_def)
  from claim j102 have "(15 \<noteq> (0::ptr) \<longrightarrow> 15 \<in> liveTerms demo_result)
      \<and> (address (JumpTarget 16) \<noteq> 0 \<longrightarrow> address (JumpTarget 16) \<in> liveTerms demo_result)"
    by blast
  then have live: "15 \<in> liveTerms demo_result" "16 \<in> liveTerms demo_result"
    by simp_all
  from claim j101 have skip: "computeLiveness_statement demo 101 demo_result = Inr demo_result"
    by blast
  from claim have "sorted (deadJumps demo_result)" by blast
  moreover have "set (deadJumps demo_result) = {101}" "22 \<notin> liveTerms demo_result"
    by (simp_all add: demo_result_def)
  ultimately show ?thesis
    using demo_run j102 j101 live skip by simp
qed





text \<open>
  C8, as stated, fails where the build prefers constants to expressions: propagation
  stops at a read whose value is concrete, so a live binary operator can have operands
  that are not live.
\<close>

lemma demo_pc_run:
  "analyze demo_pc emptyLiveness =
     Inr \<lparr>liveTerms = {1, 2, 3, 4, 5, 6, 9, 15, 16, 17, 18, 19, 21}, deadJumps = [101],
        warnings = [''Was called for unsupported kind of statement.'',
                    ''Was called for unsupported kind of term.'']\<rparr>"
  by code_simp

theorem liveness_closed_counterexample:
  "analyze demo_pc emptyLiveness =
     Inr \<lparr>liveTerms = {1, 2, 3, 4, 5, 6, 9, 15, 16, 17, 18, 19, 21}, deadJumps = [101],
        warnings = [''Was called for unsupported kind of statement.'',
                    ''Was called for unsupported kind of term.'']\<rparr>
   \<and> node (terms demo_pc 5) = BinaryOperator 7 8
   \<and> 5 \<in> {1, 2, 3, 4, 5, 6, 9, 15, 16, 17, 18, 19, 21 :: ptr}
   \<and> 7 \<notin> {1, 2, 3, 4, 5, 6, 9, 15, 16, 17, 18, 19, 21 :: ptr}"
  using demo_pc_run
  by (simp add: demo_pc_def demo_def demo_terms_def readTerm_def)

text \<open>
  C8, amended. When the analysis starts from the empty set, the final set is closed under
  the propagation rules at every live term at which propagation is not stopped by the
  preference for constants: both operands of a binary operator, the operand of a unary
  operator, the preferred term of a choice if it has reaching definitions and the default
  term otherwise, every defining term in every chunk of the reaching definitions of a
  memory-location access or dereference that is a read, the source of one that is a write
  and has a source, and the address of a dereference with no memory location.
\<close>

theorem liveness_closed_under_propagation:
  assumes "analyze E s0 = Inr s" and "liveTerms s0 = {}"
    and "t \<in> liveTerms s"
    and "\<not> (preferConstants E \<and> isRead (terms E t) \<and> isConcrete E t)"
  shows "(\<forall>l r. node (terms E t) = BinaryOperator l r \<longrightarrow> l \<in> liveTerms s \<and> r \<in> liveTerms s)
       \<and> (\<forall>x. node (terms E t) = UnaryOperator x \<longrightarrow> x \<in> liveTerms s)
       \<and> (\<forall>p d. node (terms E t) = Choice p d \<longrightarrow>
             (if getDefinitions E p \<noteq> [] then p \<in> liveTerms s else d \<in> liveTerms s))
       \<and> ((\<exists>ml. node (terms E t) = MemoryLocationAccess ml) \<or> (\<exists>a. node (terms E t) = Dereference a) \<longrightarrow>
             (isRead (terms E t) \<longrightarrow>
                (\<forall>c\<in>set (getDefinitions E t). \<forall>d\<in>set (definitions c). d \<in> liveTerms s))
           \<and> (isWrite (terms E t) \<longrightarrow> source (terms E t) \<noteq> 0 \<longrightarrow> source (terms E t) \<in> liveTerms s))
       \<and> (\<forall>a. node (terms E t) = Dereference a \<longrightarrow> getMemoryLocation E t = None \<longrightarrow> a \<in> liveTerms s)"
proof -
  have "closed E (liveTerms s0)"
    using assms(2) by (simp add: closed_def)
  with assms(1) have "closed E (liveTerms s)" by (rule analyze_closed)
  with assms(3) have sub: "set (propagated E t) \<subseteq> liveTerms s"
    by (simp add: closed_def)
  have ns: "\<not> stopsPropagation E t"
    using assms(4) by (simp add: stopsPropagation_def)
  have rw: "\<not> (isRead (terms E t) \<and> isWrite (terms E t))"
    by (auto simp: isRead_def isWrite_def)
  show ?thesis
  proof (cases "node (terms E t)")
    case (MemoryLocationAccess ml)
    with sub ns rw show ?thesis
      by (auto simp: propagated_def dataflowChain_def split: if_splits)
  next
    case (Dereference a)
    with sub ns rw show ?thesis
      by (auto simp: propagated_def dataflowChain_def split: if_splits)
  qed (use sub ns in \<open>auto simp: propagated_def split: if_splits\<close>)
qed

theorem liveness_closed_under_propagation_witness:
  "analyze demo emptyLiveness = Inr demo_result \<and> liveTerms emptyLiveness = {}
   \<and> 5 \<in> liveTerms demo_result \<and> node (terms demo 5) = BinaryOperator 7 8
   \<and> 7 \<in> liveTerms demo_result \<and> 8 \<in> liveTerms demo_result
   \<and> 8 \<in> liveTerms demo_result \<and> node (terms demo 8) = Choice 10 11
   \<and> getDefinitions demo 10 = [] \<and> 11 \<in> liveTerms demo_result
   \<and> 3 \<in> liveTerms demo_result \<and> node (terms demo 3) = Dereference 4
   \<and> isWrite (terms demo 3) \<and> source (terms demo 3) = 5
   \<and> getMemoryLocation demo 3 = None \<and> 4 \<in> liveTerms demo_result"
proof -
  have e: "liveTerms emptyLiveness = {}"
    by (simp add: emptyLiveness_def)
  have live: "5 \<in> liveTerms demo_result" "8 \<in> liveTerms demo_result" "3 \<in> liveTerms demo_result"
    by (simp_all add: demo_result_def)
  have kinds: "node (terms demo 5) = BinaryOperator 7 8" "node (terms demo 8) = Choice 10 11"
    "node (terms demo 3) = Dereference 4" "isWrite (terms demo 3)" "source (terms demo 3) = 5"
    "getMemoryLocation demo 3 = None" "getDefinitions demo 10 = []"
    by (simp_all add: demo_def demo_terms_def writeTerm_def readTerm_def isWrite_def)
  have flag: "\<not> (preferConstants demo \<and> isRead (terms demo t) \<and> isConcrete demo t)" for t
    by (simp add: demo_def)
  from liveness_closed_under_propagation [OF demo_run e live(1) flag] kinds
  have 1: "7 \<in> liveTerms demo_result" "8 \<in> liveTerms demo_result" by simp_all
  from liveness_closed_under_propagation [OF demo_run e live(2) flag] kinds
  have 2: "11 \<in> liveTerms demo_result" by simp
  from liveness_closed_under_propagation [OF demo_run e live(3) flag] kinds
  have 3: "4 \<in> liveTerms demo_result" by simp
  show ?thesis
    using demo_run e live kinds 1 2 3 by simp
qed

subsection \<open>The dead-jump list and propagation\<close>




section \<open>Malformed input to the liveness analysis\<close>










section \<open>Claims about the pipeline controller\<close>

subsection \<open>Function names\<close>

lemma hexDigit_cases:
  fixes d :: nat
  assumes "d < 16"
  shows "d \<in> {0, 1, 2, 3, 4, 5, 6, 7, 8, 9, 10, 11, 12, 13, 14, 15}"
  using assms by simp arith

lemma digitValue_hexDigit:
  assumes "d < 16"
  shows "digitValue (hexDigit d) = d"
  using hexDigit_cases [OF assms]
  by (auto simp: digitValue_def hexDigit_def)

lemma hexDigit_in:
  assumes "d < 16"
  shows "hexDigit d \<in> set ''0123456789abcdef''"
  using hexDigit_cases [OF assms]
  by (auto simp: hexDigit_def)

lemma hexDigit_zero:
  assumes "d < 16" and "hexDigit d = CHR ''0''"
  shows "d = 0"
  using hexDigit_cases [OF assms(1)] assms(2)
  by (auto simp: hexDigit_def)

lemma hexValue_snoc: "hexValue (cs @ [c]) = 16 * hexValue cs + digitValue c"
  by (simp add: hexValue_def)

lemma hex_nonempty: "hex n \<noteq> []"
  by (subst hex.simps) simp

lemma hex_digits: "set (hex n) \<subseteq> set ''0123456789abcdef''"
proof (induction n rule: hex.induct)
  case (1 n)
  show ?case
  proof (cases "n < 16")
    case True
    then show ?thesis
      using hexDigit_in [of n] by (subst hex.simps) simp
  next
    case False
    have "hexDigit (n mod 16) \<in> set ''0123456789abcdef''"
      by (rule hexDigit_in) simp
    with False "1.IH" show ?thesis
      by (subst hex.simps) simp
  qed
qed

lemma hexValue_hex: "hexValue (hex n) = n"
proof (induction n rule: hex.induct)
  case (1 n)
  show ?case
  proof (cases "n < 16")
    case True
    then show ?thesis
      by (subst hex.simps) (simp add: hexValue_def digitValue_hexDigit)
  next
    case False
    with "1.IH" show ?thesis
      by (subst hex.simps) (simp add: hexValue_snoc digitValue_hexDigit)
  qed
qed

lemma hex_no_leading_zero:
  assumes "n \<noteq> 0"
  shows "hd (hex n) \<noteq> CHR ''0''"
  using assms
proof (induction n rule: hex.induct)
  case (1 n)
  show ?case
  proof (cases "n < 16")
    case True
    with "1.prems" hexDigit_zero [of n] show ?thesis
      by (subst hex.simps) auto
  next
    case False
    then have "n div 16 \<noteq> 0" by simp
    with False "1.IH" have "hd (hex (n div 16)) \<noteq> CHR ''0''" by simp
    with False show ?thesis
      by (subst hex.simps) (simp add: hex_nonempty)
  qed
qed

lemma hex_inject: "hex m = hex n \<Longrightarrow> m = n"
  by (metis hexValue_hex)

text \<open>
  C9. The name of a function is chosen in one of three ways. When the entry has an address
  and the module has a non-empty symbol name for it, the name is the cleaned symbol name;
  the symbol name is appended to the comment if it differs from the cleaned one, and the
  demangled name is appended if it contains an opening parenthesis. When the entry has an
  address and there is no symbol name, the name is \<open>func_\<close> and the address in
  hexadecimal. Otherwise it is \<open>func_noentry_\<close> and the address of the function object
  in hexadecimal, which differs for different function objects. The hexadecimal text
  has lowercase digits only, denotes the value, and has no leading zero.
\<close>

theorem pickFunctionName_cases:
  "(\<forall>b a. entry f = Some b \<longrightarrow> blockAddress b = Some a \<longrightarrow> getName M a \<noteq> [] \<longrightarrow>
       name (pickFunctionName M f) = cleanName M (getName M a)
     \<and> comment (pickFunctionName M f) =
         comment f
         @ (if getName M a \<noteq> cleanName M (getName M a) then [getName M a] else [])
         @ (if CHR ''('' \<in> set (demangle M (getName M a)) then [demangle M (getName M a)]
            else []))
 \<and> (\<forall>b a. entry f = Some b \<longrightarrow> blockAddress b = Some a \<longrightarrow> getName M a = [] \<longrightarrow>
       name (pickFunctionName M f) = ''func_'' @ hex (unat a)
     \<and> comment (pickFunctionName M f) = comment f)
 \<and> (entry f = None \<or> (\<exists>b. entry f = Some b \<and> blockAddress b = None) \<longrightarrow>
       name (pickFunctionName M f) = ''func_noentry_'' @ hex (unat (self f))
     \<and> comment (pickFunctionName M f) = comment f
     \<and> (\<forall>g. (entry g = None \<or> (\<exists>b. entry g = Some b \<and> blockAddress b = None)) \<longrightarrow>
            self g \<noteq> self f \<longrightarrow>
            name (pickFunctionName M g) \<noteq> name (pickFunctionName M f)))
 \<and> (\<forall>n. set (hex n) \<subseteq> set ''0123456789abcdef'' \<and> hexValue (hex n) = n
        \<and> (n \<noteq> 0 \<longrightarrow> hd (hex n) \<noteq> CHR ''0''))"
proof (intro conjI allI impI)
  fix b a
  assume h: "entry f = Some b" "blockAddress b = Some a" "getName M a \<noteq> []"
  then show "name (pickFunctionName M f) = cleanName M (getName M a)"
    by (simp add: pickFunctionName_def Let_def)
  from h show "comment (pickFunctionName M f) =
         comment f
         @ (if getName M a \<noteq> cleanName M (getName M a) then [getName M a] else [])
         @ (if CHR ''('' \<in> set (demangle M (getName M a)) then [demangle M (getName M a)]
            else [])"
    by (simp add: pickFunctionName_def Let_def)
next
  fix b a
  assume h: "entry f = Some b" "blockAddress b = Some a" "getName M a = []"
  then show "name (pickFunctionName M f) = ''func_'' @ hex (unat a)"
    by (simp add: pickFunctionName_def Let_def)
  from h show "comment (pickFunctionName M f) = comment f"
    by (simp add: pickFunctionName_def Let_def)
next
  assume h: "entry f = None \<or> (\<exists>b. entry f = Some b \<and> blockAddress b = None)"
  then show nf: "name (pickFunctionName M f) = ''func_noentry_'' @ hex (unat (self f))"
    by (auto simp: pickFunctionName_def)
  from h show "comment (pickFunctionName M f) = comment f"
    by (auto simp: pickFunctionName_def)
  fix g :: ir_function
  assume hg: "entry g = None \<or> (\<exists>b. entry g = Some b \<and> blockAddress b = None)"
    and ne: "self g \<noteq> self f"
  from hg have ng: "name (pickFunctionName M g) = ''func_noentry_'' @ hex (unat (self g))"
    by (auto simp: pickFunctionName_def)
  from ne have "unat (self g) \<noteq> unat (self f)"
    using word_unat_eq_iff by blast
  then have "hex (unat (self g)) \<noteq> hex (unat (self f))"
    using hex_inject by blast
  with nf ng show "name (pickFunctionName M g) \<noteq> name (pickFunctionName M f)" by simp
next
  fix n
  show "set (hex n) \<subseteq> set ''0123456789abcdef''" by (rule hex_digits)
  show "hexValue (hex n) = n" by (rule hexValue_hex)
  assume "n \<noteq> 0"
  then show "hd (hex n) \<noteq> CHR ''0''" by (rule hex_no_leading_zero)
qed

lemma hex_examples:
  "hex (unat (4198912 :: 64 word)) = ''401200''" "hex (unat (400 :: ptr)) = ''190''"
  "hex (unat (500 :: ptr)) = ''1f4''" "hex 0 = ''0''"
  by (simp_all add: hex.simps hexDigit_def)

theorem pickFunctionName_cases_witness:
  "entry fn_symbol = Some \<lparr>blockAddress = Some 4198400, getJump = 102\<rparr>
   \<and> getName demo_env 4198400 = ''_Z3fooi''
   \<and> name (pickFunctionName demo_env fn_symbol) = ''_Z3fooi''
   \<and> comment (pickFunctionName demo_env fn_symbol) = [''foo(int)'']
   \<and> entry fn_address = Some \<lparr>blockAddress = Some 4198912, getJump = 0\<rparr>
   \<and> getName demo_env 4198912 = []
   \<and> name (pickFunctionName demo_env fn_address) = ''func_401200''
   \<and> entry fn_noentry = None
   \<and> name (pickFunctionName demo_env fn_noentry) = ''func_noentry_190''
   \<and> entry fn_noaddress = Some \<lparr>blockAddress = None, getJump = 0\<rparr>
   \<and> name (pickFunctionName demo_env fn_noaddress) = ''func_noentry_1f4''
   \<and> comment (pickFunctionName demo_env fn_noaddress) = [''synthesized'']
   \<and> name (pickFunctionName demo_env fn_noaddress) \<noteq> name (pickFunctionName demo_env fn_noentry)
   \<and> hexValue ''401200'' = 4198912 \<and> hd ''401200'' \<noteq> CHR ''0''"
proof -
  note s = pickFunctionName_cases [of fn_symbol demo_env]
  note a = pickFunctionName_cases [of fn_address demo_env]
  note n = pickFunctionName_cases [of fn_noentry demo_env]
  note m = pickFunctionName_cases [of fn_noaddress demo_env]
  have facts: "entry fn_symbol = Some \<lparr>blockAddress = Some 4198400, getJump = 102\<rparr>"
    "blockAddress \<lparr>blockAddress = Some 4198400, getJump = 102\<rparr> = Some 4198400"
    "getName demo_env 4198400 = ''_Z3fooi''" "cleanName demo_env ''_Z3fooi'' = ''_Z3fooi''"
    "demangle demo_env ''_Z3fooi'' = ''foo(int)''" "comment fn_symbol = []"
    "entry fn_address = Some \<lparr>blockAddress = Some 4198912, getJump = 0\<rparr>"
    "blockAddress \<lparr>blockAddress = Some 4198912, getJump = 0\<rparr> = Some 4198912"
    "getName demo_env 4198912 = []"
    "entry fn_noentry = None" "self fn_noentry = 400"
    "entry fn_noaddress = Some \<lparr>blockAddress = None, getJump = 0\<rparr>"
    "blockAddress \<lparr>blockAddress = None, getJump = 0\<rparr> = None"
    "self fn_noaddress = 500" "comment fn_noaddress = [''synthesized'']"
    by (simp_all add: fn_symbol_def fn_address_def fn_noentry_def fn_noaddress_def demo_env_def)
  from s facts have 1: "name (pickFunctionName demo_env fn_symbol) = ''_Z3fooi''"
    "comment (pickFunctionName demo_env fn_symbol) = [''foo(int)'']"
    by simp_all
  from a facts hex_examples have 2: "name (pickFunctionName demo_env fn_address) = ''func_401200''"
    by simp
  from n facts hex_examples have 3: "name (pickFunctionName demo_env fn_noentry) = ''func_noentry_190''"
    by simp
  from m facts hex_examples have 4: "name (pickFunctionName demo_env fn_noaddress) = ''func_noentry_1f4''"
    "comment (pickFunctionName demo_env fn_noaddress) = [''synthesized'']"
    by simp_all
  have "\<exists>b. entry fn_noaddress = Some b \<and> blockAddress b = None"
    "self fn_noaddress \<noteq> self fn_noentry"
    using facts by simp_all
  with n facts(10)
  have 5: "name (pickFunctionName demo_env fn_noaddress) \<noteq> name (pickFunctionName demo_env fn_noentry)"
    by blast
  have u: "unat (4198912 :: 64 word) = 4198912" by simp
  from a have "hexValue (hex 4198912) = 4198912"
    "(4198912::nat) \<noteq> 0 \<longrightarrow> hd (hex 4198912) \<noteq> CHR ''0''"
    by blast+
  with hex_examples(1) u have 6: "hexValue ''401200'' = 4198912" "hd ''401200'' \<noteq> CHR ''0''"
    by simp_all
  show ?thesis
    using facts 1 2 3 4 5 6 by simp
qed

end
